theory Spec2Isabelle
  imports Complex_Main
begin

section \<open>Dates of the host language\<close>

text \<open>
  Every \<^verbatim>\<open>Date\<close> object that \<^verbatim>\<open>calendar/js/index.js\<close> builds or receives is a local
  midnight. Such a date is represented by its day number, the count of local days since
  1 January 1970 (negative before), and the accessors are those of the ECMAScript
  language specification, section "Date objects", read on local days: \<^verbatim>\<open>DayFromYear\<close>,
  \<^verbatim>\<open>YearFromTime\<close>, \<^verbatim>\<open>MonthFromTime\<close>, \<^verbatim>\<open>DateFromTime\<close>, \<^verbatim>\<open>WeekDay\<close>, \<^verbatim>\<open>MakeDay\<close>.
  The calendar is the proleptic Gregorian one; month numbers run from 0 (January) to
  11 (December), weekdays from 0 (Sunday) to 6 (Saturday). Day numbers are unbounded
  integers here (the language stops at 100,000,000 days either side of 1970), and
  numbers are integers (the program's cell size is 17, and every coordinate it computes
  is an integer product).
\<close>

type_synonym date = int

definition DayFromYear :: "int \<Rightarrow> int" where
  "DayFromYear y =
     365 * (y - 1970) + (y - 1969) div 4 - (y - 1901) div 100 + (y - 1601) div 400"

definition InLeapYear :: "int \<Rightarrow> bool" where
  "InLeapYear y = (y mod 4 = 0 \<and> (y mod 400 = 0 \<or> y mod 100 \<noteq> 0))"

definition DaysInYear :: "int \<Rightarrow> int" where
  "DaysInYear y = (if InLeapYear y then 366 else 365)"

text \<open>
  \<^verbatim>\<open>YearFromTime(t)\<close> is the year \<open>y\<close> with \<open>DayFromYear y \<le> t < DayFromYear (y + 1)\<close>. It is
  computed from the mean length of a year (146097 days in 400 years), which is off by at
  most one (lemma \<open>YearFromTime_bounds\<close> below).
\<close>

definition YearFromTime :: "date \<Rightarrow> int" where
  "YearFromTime t =
     (let y = 1970 + (400 * t) div 146097
      in if t < DayFromYear y then y - 1
         else if DayFromYear (y + 1) \<le> t then y + 1
         else y)"

definition DayWithinYear :: "date \<Rightarrow> int" where
  "DayWithinYear t = t - DayFromYear (YearFromTime t)"

text \<open>The day within the year on which month \<open>m\<close> (0 to 11) of year \<open>y\<close> begins.\<close>

definition MonthStart :: "int \<Rightarrow> int \<Rightarrow> int" where
  "MonthStart y m =
     (let leap = (if InLeapYear y then 1 else 0)
      in if m = 0 then 0
         else if m = 1 then 31
         else if m = 2 then 59 + leap
         else if m = 3 then 90 + leap
         else if m = 4 then 120 + leap
         else if m = 5 then 151 + leap
         else if m = 6 then 181 + leap
         else if m = 7 then 212 + leap
         else if m = 8 then 243 + leap
         else if m = 9 then 273 + leap
         else if m = 10 then 304 + leap
         else 334 + leap)"

definition MonthFromTime :: "date \<Rightarrow> int" where
  "MonthFromTime t =
     (let d = DayWithinYear t;
          leap = (if InLeapYear (YearFromTime t) then 1 else 0)
      in if d < 31 then 0
         else if d < 59 + leap then 1
         else if d < 90 + leap then 2
         else if d < 120 + leap then 3
         else if d < 151 + leap then 4
         else if d < 181 + leap then 5
         else if d < 212 + leap then 6
         else if d < 243 + leap then 7
         else if d < 273 + leap then 8
         else if d < 304 + leap then 9
         else if d < 334 + leap then 10
         else 11)"

definition DateFromTime :: "date \<Rightarrow> int" where
  "DateFromTime t =
     DayWithinYear t - MonthStart (YearFromTime t) (MonthFromTime t) + 1"

definition WeekDay :: "date \<Rightarrow> int" where
  "WeekDay t = (t + 4) mod 7"

text \<open>
  \<^verbatim>\<open>MakeDay(year, month, date)\<close>: months outside 0 to 11 carry into the year, and the day
  of the month is an offset from the first of the month, so day 0 is the last day of the
  month before.
\<close>

definition MakeDay :: "int \<Rightarrow> int \<Rightarrow> int \<Rightarrow> date" where
  "MakeDay year month dt =
     (let ym = year + month div 12;
          mn = month mod 12
      in DayFromYear ym + MonthStart ym mn + dt - 1)"

text \<open>
  \<^verbatim>\<open>new Date(year, month, day)\<close>. By the language specification (\<^verbatim>\<open>MakeFullYear\<close>) the
  constructor reads a year argument from 0 to 99 as 1900 + year, so that
  \<^verbatim>\<open>new Date(99, 0, 1)\<close> is 1 January 1999; every other year is taken as it is.
\<close>

definition new_Date :: "int \<Rightarrow> int \<Rightarrow> int \<Rightarrow> date" where
  "new_Date year month dt =
     MakeDay (if 0 \<le> year \<and> year \<le> 99 then 1900 + year else year) month dt"

definition getFullYear :: "date \<Rightarrow> int" where
  "getFullYear t = YearFromTime t"

definition getMonth :: "date \<Rightarrow> int" where
  "getMonth t = MonthFromTime t"

definition getDate :: "date \<Rightarrow> int" where
  "getDate t = DateFromTime t"

definition getDay :: "date \<Rightarrow> int" where
  "getDay t = WeekDay t"

section \<open>The d3 functions the program calls\<close>

text \<open>
  \<^verbatim>\<open>d3.timeYear(date)\<close> floors to the start of the year (\<^verbatim>\<open>setMonth(0, 1)\<close> and
  \<^verbatim>\<open>setHours(0, 0, 0, 0)\<close>); \<^verbatim>\<open>d3.timeWeek\<close> floors to the Sunday on or before
  (\<^verbatim>\<open>setDate(getDate() - (getDay() + 7 - 0) % 7)\<close>), and \<^verbatim>\<open>d3.timeWeek.count(start, end)\<close>
  is the number of weeks between the two floors; \<^verbatim>\<open>interval.range(start, stop)\<close> lists
  the interval boundaries from \<open>start\<close> (inclusive) to \<open>stop\<close> (exclusive), and is empty
  unless \<open>start < stop\<close>; \<^verbatim>\<open>d3.range(start, stop)\<close> lists the integers from \<open>start\<close> to
  \<open>stop - 1\<close>.
\<close>

definition timeYear :: "date \<Rightarrow> date" where
  "timeYear t = MakeDay (getFullYear t) 0 1"

definition timeWeek_floor :: "date \<Rightarrow> date" where
  "timeWeek_floor t = t - (getDay t + 7 - 0) mod 7"

definition timeWeek_count :: "date \<Rightarrow> date \<Rightarrow> int" where
  "timeWeek_count start end = (timeWeek_floor end - timeWeek_floor start) div 7"

definition timeDays :: "date \<Rightarrow> date \<Rightarrow> date list" where
  "timeDays start stop = [start..stop - 1]"

definition timeMonths :: "date \<Rightarrow> date \<Rightarrow> date list" where
  "timeMonths start stop = filter (\<lambda>t. getDate t = 1) [start..stop - 1]"

definition d3_range :: "int \<Rightarrow> int \<Rightarrow> int list" where
  "d3_range start stop = [start..stop - 1]"

subsection \<open>Numbers as strings\<close>

text \<open>
  String concatenation with a number writes an integer in decimal, with a minus sign
  when negative. \<^verbatim>\<open>d3.timeFormat("%Y-%m-%d")\<close> pads the year (modulo 10000, by the
  truncating remainder) to four digits and month and day to two.
\<close>

fun digits :: "nat \<Rightarrow> string" where
  "digits n =
     (if n < 10 then [''0123456789'' ! n]
      else digits (n div 10) @ [''0123456789'' ! (n mod 10)])"

declare digits.simps [simp del]

definition number_string :: "int \<Rightarrow> string" where
  "number_string i = (if i < 0 then ''-'' @ digits (nat (- i)) else digits (nat i))"

definition js_rem :: "int \<Rightarrow> int \<Rightarrow> int" where
  "js_rem a b = (if a < 0 then - ((- a) mod \<bar>b\<bar>) else a mod \<bar>b\<bar>)"

definition pad :: "int \<Rightarrow> char \<Rightarrow> nat \<Rightarrow> string" where
  "pad v fill w =
     (let sign = (if v < 0 then ''-'' else '''');
          s = digits (nat \<bar>v\<bar>)
      in sign @ (if length s < w then replicate (w - length s) fill @ s else s))"

definition timeFormat_Ymd :: "date \<Rightarrow> string" where
  "timeFormat_Ymd t =
     pad (js_rem (getFullYear t) 10000) CHR ''0'' 4 @ ''-'' @
     pad (getMonth t + 1) CHR ''0'' 2 @ ''-'' @
     pad (getDate t) CHR ''0'' 2"

section \<open>The calendar script\<close>

subsection \<open>Day cells: \<^verbatim>\<open>generateDayRects\<close>\<close>

definition getWeekNumber :: "date \<Rightarrow> int" where
  "getWeekNumber dt = timeWeek_count (timeYear dt) dt"

definition getDayNumber :: "date \<Rightarrow> int" where
  "getDayNumber dt = getDay dt"

definition getX :: "int \<Rightarrow> date \<Rightarrow> int" where
  "getX cellSize dt = getWeekNumber dt * cellSize"

definition getY :: "int \<Rightarrow> date \<Rightarrow> int" where
  "getY cellSize dt = getDayNumber dt * cellSize"

definition getAllDaysInYear :: "int \<Rightarrow> date list" where
  "getAllDaysInYear year = timeDays (new_Date year 0 1) (new_Date (year + 1) 0 1)"

subsection \<open>Month outlines: \<^verbatim>\<open>appendMonthPathsToYearGroups\<close>\<close>

definition getAllMonthsInYear :: "int \<Rightarrow> date list" where
  "getAllMonthsInYear year = timeMonths (new_Date year 0 1) (new_Date (year + 1) 0 1)"

text \<open>
  The locals of \<^verbatim>\<open>getPathDescriptionForMonth\<close>, in the order the function assigns them.
\<close>

definition nextMonth :: "date \<Rightarrow> date" where
  "nextMonth month = new_Date (getFullYear month) (getMonth month + 1) 0"

definition thisMonthDayOfWeek :: "date \<Rightarrow> int" where
  "thisMonthDayOfWeek month = getDay month"

definition thisMonthWeekOfYear :: "date \<Rightarrow> int" where
  "thisMonthWeekOfYear month = timeWeek_count (timeYear month) month"

definition nextMonthDayOfWeek :: "date \<Rightarrow> int" where
  "nextMonthDayOfWeek month = getDay (nextMonth month)"

definition nextMonthWeekOfYear :: "date \<Rightarrow> int" where
  "nextMonthWeekOfYear month = timeWeek_count (timeYear (nextMonth month)) (nextMonth month)"

definition getPathDescriptionForMonth :: "int \<Rightarrow> date \<Rightarrow> string" where
  "getPathDescriptionForMonth cellSize month =
     ''M'' @ number_string ((thisMonthWeekOfYear month + 1) * cellSize)
       @ '','' @ number_string (thisMonthDayOfWeek month * cellSize)
     @ ''H'' @ number_string (thisMonthWeekOfYear month * cellSize)
     @ ''V'' @ number_string (7 * cellSize)
     @ ''H'' @ number_string (nextMonthWeekOfYear month * cellSize)
     @ ''V'' @ number_string ((nextMonthDayOfWeek month + 1) * cellSize)
     @ ''H'' @ number_string ((nextMonthWeekOfYear month + 1) * cellSize)
     @ ''V'' @ number_string 0
     @ ''H'' @ number_string ((thisMonthWeekOfYear month + 1) * cellSize)
     @ ''Z''"

subsection \<open>The document\<close>

text \<open>
  The script draws into the element \<^verbatim>\<open>#calendar\<close>, which the page provides empty. The
  drawing is a list of year groups (one \<^verbatim>\<open>svg\<close> with its \<^verbatim>\<open>g\<close>), each holding its label,
  its day cells and its month outlines. A d3 selection is the list of the elements it
  selects, and a function that sets attributes on a selection returns the drawing with
  these elements updated.
\<close>

record day_rect =
  rect_class :: string
  rect_width :: int
  rect_height :: int
  rect_x :: int
  rect_y :: int
  rect_datum :: string
  rect_title :: "string option"

record month_path =
  path_class :: string
  path_d :: string

record year_group =
  svg_datum :: int
  svg_width :: int
  svg_height :: int
  svg_class :: string
  g_translate :: "rat \<times> rat"
  g_text :: "string option"
  g_days :: "day_rect list"
  g_months :: "month_path list"

definition getOffsetX :: "int \<Rightarrow> int \<Rightarrow> rat" where
  "getOffsetX width cellSize = (of_int width - of_int cellSize * 53) / 2"

definition getOffsetY :: "int \<Rightarrow> int \<Rightarrow> rat" where
  "getOffsetY height cellSize = of_int height - of_int cellSize * 7 - 1"

definition generateYearGroups :: "int \<Rightarrow> int \<Rightarrow> int \<Rightarrow> year_group list" where
  "generateYearGroups width height cellSize =
     map (\<lambda>year. \<lparr>svg_datum = year, svg_width = width, svg_height = height,
                   svg_class = ''year'',
                   g_translate = (getOffsetX width cellSize, getOffsetY height cellSize),
                   g_text = None, g_days = [], g_months = []\<rparr>)
         (d3_range 2016 2100)"

definition attachTextToYearGroups :: "year_group list \<Rightarrow> int \<Rightarrow> year_group list" where
  "attachTextToYearGroups yearGroups cellSize =
     map (\<lambda>g. g\<lparr>g_text := Some (number_string (svg_datum g))\<rparr>) yearGroups"

definition generateDayRects :: "year_group list \<Rightarrow> int \<Rightarrow> year_group list" where
  "generateDayRects yearGroups cellSize =
     map (\<lambda>g. g\<lparr>g_days :=
            map (\<lambda>dt. \<lparr>rect_class = ''day'', rect_width = cellSize, rect_height = cellSize,
                         rect_x = getX cellSize dt, rect_y = getY cellSize dt,
                         rect_datum = timeFormat_Ymd dt, rect_title = None\<rparr>)
                (getAllDaysInYear (svg_datum g))\<rparr>)
         yearGroups"

definition attachTitlesToDayRects :: "year_group list \<Rightarrow> 'd \<Rightarrow> year_group list" where
  "attachTitlesToDayRects yearGroups data =
     map (\<lambda>g. g\<lparr>g_days := map (\<lambda>r. r\<lparr>rect_title := Some (rect_datum r)\<rparr>) (g_days g)\<rparr>)
         yearGroups"

definition appendMonthPathsToYearGroups :: "year_group list \<Rightarrow> int \<Rightarrow> year_group list" where
  "appendMonthPathsToYearGroups yearGroups cellSize =
     map (\<lambda>g. g\<lparr>g_months :=
            map (\<lambda>month. \<lparr>path_class = ''month'',
                            path_d = getPathDescriptionForMonth cellSize month\<rparr>)
                (getAllMonthsInYear (svg_datum g))\<rparr>)
         yearGroups"

subsection \<open>The data: \<^verbatim>\<open>transformCsvData\<close> and \<^verbatim>\<open>updateClassAndTitleForDayRects\<close>\<close>

text \<open>
  A row of the table has the fields \<^verbatim>\<open>Date\<close>, \<^verbatim>\<open>Value\<close> and \<^verbatim>\<open>Name\<close>; the value field is
  taken as the number it denotes. \<^verbatim>\<open>d3.nest().key(...).rollup(...).map(csv)\<close> groups the
  rows by date and keeps, for each date, what the roll-up makes of the group: the value
  and name of its first row.
\<close>

record csv_row =
  row_Date :: string
  row_Value :: rat
  row_Name :: string

record data_object =
  Value :: rat
  Name :: string

definition getDataObjectKey :: "csv_row \<Rightarrow> string" where
  "getDataObjectKey dataObject = row_Date dataObject"

definition transformCsvData :: "csv_row list \<Rightarrow> (string \<rightharpoonup> data_object)" where
  "transformCsvData csv =
     map_of (map (\<lambda>r. (getDataObjectKey r, \<lparr>Value = row_Value r, Name = row_Name r\<rparr>)) csv)"

text \<open>
  \<^verbatim>\<open>d3.scaleQuantize().domain([0, 100])\<close> with a range of ten classes cuts the domain at
  10, 20, ..., 90 and gives a value the class whose index is the number of cuts at or
  below it.
\<close>

definition color :: "rat \<Rightarrow> string" where
  "color v =
     ''color'' @ digits (length (filter (\<lambda>c. c \<le> v) [10, 20, 30, 40, 50, 60, 70, 80, 90]))"

definition isRectDataInCsvData :: "(string \<rightharpoonup> data_object) \<Rightarrow> string \<Rightarrow> bool" where
  "isRectDataInCsvData data dateString = (data dateString \<noteq> None)"

definition getRectClass :: "(string \<rightharpoonup> data_object) \<Rightarrow> string \<Rightarrow> string" where
  "getRectClass data dateString = ''day '' @ color (Value (the (data dateString)))"

definition getRectTitle :: "(string \<rightharpoonup> data_object) \<Rightarrow> string \<Rightarrow> string" where
  "getRectTitle data dateString = dateString @ '': '' @ Name (the (data dateString))"

definition updateClassAndTitleForDayRects ::
  "year_group list \<Rightarrow> (string \<rightharpoonup> data_object) \<Rightarrow> year_group list" where
  "updateClassAndTitleForDayRects yearGroups data =
     map (\<lambda>g. g\<lparr>g_days :=
            map (\<lambda>r. if isRectDataInCsvData data (rect_datum r)
                      then r\<lparr>rect_class := getRectClass data (rect_datum r),
                             rect_title := map_option (\<lambda>_. getRectTitle data (rect_datum r))
                                             (rect_title r)\<rparr>
                      else r)
                (g_days g)\<rparr>)
         yearGroups"

subsection \<open>\<^verbatim>\<open>render\<close> and the load callback\<close>

definition render :: "(string \<rightharpoonup> data_object) \<Rightarrow> year_group list" where
  "render data =
     (let cellSize = 17;
          height = 136;
          width = 960;
          yearGroups = generateYearGroups width height cellSize;
          yearGroups = attachTextToYearGroups yearGroups cellSize;
          yearGroups = generateDayRects yearGroups cellSize;
          yearGroups = attachTitlesToDayRects yearGroups data;
          yearGroups = appendMonthPathsToYearGroups yearGroups cellSize
      in updateClassAndTitleForDayRects yearGroups data)"

text \<open>
  The callback given to \<^verbatim>\<open>d3.csv\<close>: it receives either an error object or the rows, and
  either throws the error (\<open>Inl\<close>) or returns with the drawing made (\<open>Inr\<close>).
\<close>

definition csv_callback :: "'e option \<Rightarrow> csv_row list \<Rightarrow> 'e + year_group list" where
  "csv_callback err csv =
     (case err of
        Some e \<Rightarrow> Inl e
      | None \<Rightarrow> Inr (render (transformCsvData csv)))"

definition dayRects :: "year_group list \<Rightarrow> day_rect list" where
  "dayRects yearGroups = concat (map g_days yearGroups)"

section \<open>Reading a path description\<close>

text \<open>
  The commands of SVG path data that the script writes, and the vertices a list of
  commands visits: \<open>M\<close> starts at a point, \<open>H\<close> and \<open>V\<close> draw to a new abscissa or a new
  ordinate, \<open>Z\<close> closes the path back to its start.
\<close>

datatype path_cmd = MoveTo int int | HLineTo int | VLineTo int | ClosePath

type_synonym point = "int \<times> int"

fun cmd_string :: "path_cmd \<Rightarrow> string" where
  "cmd_string (MoveTo x y) = ''M'' @ number_string x @ '','' @ number_string y"
| "cmd_string (HLineTo x) = ''H'' @ number_string x"
| "cmd_string (VLineTo y) = ''V'' @ number_string y"
| "cmd_string ClosePath = ''Z''"

definition path_string :: "path_cmd list \<Rightarrow> string" where
  "path_string cmds = concat (map cmd_string cmds)"

text \<open>
  The vertices drawn from the current point \<open>p\<close> by a run of line commands that ends
  with the closing command; \<open>None\<close> for any other list of commands.
\<close>

fun vertices_from :: "point \<Rightarrow> path_cmd list \<Rightarrow> point list option" where
  "vertices_from p [ClosePath] = Some []"
| "vertices_from p (HLineTo x # cmds) =
     map_option (\<lambda>vs. (x, snd p) # vs) (vertices_from (x, snd p) cmds)"
| "vertices_from p (VLineTo y # cmds) =
     map_option (\<lambda>vs. (fst p, y) # vs) (vertices_from (fst p, y) cmds)"
| "vertices_from p cmds = None"

text \<open>The vertices of a path that is one closed outline, in the order they are drawn.\<close>

definition closed_path_vertices :: "path_cmd list \<Rightarrow> point list option" where
  "closed_path_vertices cmds =
     (case cmds of
        MoveTo x y # rest \<Rightarrow> map_option (\<lambda>vs. (x, y) # vs) (vertices_from (x, y) rest)
      | _ \<Rightarrow> None)"

text \<open>
  Reading the commands back from a path description: a command letter, then its numbers
  in decimal, a comma between the two numbers of \<open>M\<close>. \<open>None\<close> when the string is not
  of this form.
\<close>

definition is_digit :: "char \<Rightarrow> bool" where
  "is_digit c = (c \<in> set ''0123456789'')"

definition digit_value :: "char \<Rightarrow> nat" where
  "digit_value c = of_char c - 48"

fun read_digits :: "string \<Rightarrow> nat \<Rightarrow> nat \<times> string" where
  "read_digits [] acc = (acc, [])"
| "read_digits (c # s) acc =
     (if is_digit c then read_digits s (10 * acc + digit_value c) else (acc, c # s))"

definition read_number :: "string \<Rightarrow> (int \<times> string) option" where
  "read_number s =
     (case s of
        [] \<Rightarrow> None
      | c # r \<Rightarrow>
          if c = CHR ''-'' then
            (case r of
               [] \<Rightarrow> None
             | c' # _ \<Rightarrow>
                 if is_digit c' then Some (- int (fst (read_digits r 0)), snd (read_digits r 0))
                 else None)
          else if is_digit c then Some (int (fst (read_digits s 0)), snd (read_digits s 0))
          else None)"

lemma read_digits_length: "length (snd (read_digits s acc)) \<le> length s"
  by (induction s arbitrary: acc) (auto intro: le_SucI)

lemma read_number_length: "read_number s = Some (x, r) \<Longrightarrow> length r \<le> length s"
  using read_digits_length[of s 0] read_digits_length[of "tl s" 0]
  by (auto simp: read_number_def split: list.splits if_splits)

function parse_path :: "string \<Rightarrow> path_cmd list option" where
  "parse_path [] = Some []"
| "parse_path (c # s) =
     (if c = CHR ''Z'' then map_option (\<lambda>cmds. ClosePath # cmds) (parse_path s)
      else if c = CHR ''H'' then
        (case read_number s of
           None \<Rightarrow> None
         | Some (x, r) \<Rightarrow> map_option (\<lambda>cmds. HLineTo x # cmds) (parse_path r))
      else if c = CHR ''V'' then
        (case read_number s of
           None \<Rightarrow> None
         | Some (y, r) \<Rightarrow> map_option (\<lambda>cmds. VLineTo y # cmds) (parse_path r))
      else if c = CHR ''M'' then
        (case read_number s of
           None \<Rightarrow> None
         | Some (x, r) \<Rightarrow>
             (case r of
                [] \<Rightarrow> None
              | c' # r' \<Rightarrow>
                  if c' = CHR '','' then
                    (case read_number r' of
                       None \<Rightarrow> None
                     | Some (y, r'') \<Rightarrow> map_option (\<lambda>cmds. MoveTo x y # cmds) (parse_path r''))
                  else None))
      else None)"
  by pat_completeness auto
termination
proof (relation "measure length", goal_cases)
  case 1 show ?case by simp
next
  case (2 c s) then show ?case by simp
next
  case (3 c s x2 x y) then show ?case using read_number_length[of s x y] by simp
next
  case (4 c s x2 x y) then show ?case using read_number_length[of s x y] by simp
next
  case (5 c s x2 x y x21 x22 x2a xa ya)
  then show ?case using read_number_length[of s x y] read_number_length[of x22 xa ya] by simp
qed

text \<open>
  The vertices that a path description draws, when it describes one closed outline.
\<close>

definition path_vertices :: "string \<Rightarrow> point list option" where
  "path_vertices s =
     (case parse_path s of
        None \<Rightarrow> None
      | Some cmds \<Rightarrow> closed_path_vertices cmds)"

section \<open>Notions of the specification\<close>

text \<open>
  The week-of-year index in the specification's words: the number of Sunday-to-Saturday
  week boundaries crossed since day \<open>a\<close> when standing on day \<open>b\<close>, which is the number of
  Sundays among the days after \<open>a\<close> up to and including \<open>b\<close>.
\<close>

definition weekBoundariesCrossed :: "date \<Rightarrow> date \<Rightarrow> nat" where
  "weekBoundariesCrossed a b = length (filter (\<lambda>t. getDay t = 0) [a + 1..b])"

text \<open>The number of days of month \<open>m\<close> (0 to 11) of year \<open>y\<close>.\<close>

definition DaysInMonth :: "int \<Rightarrow> int \<Rightarrow> int" where
  "DaysInMonth y m =
     (if m = 1 then (if InLeapYear y then 29 else 28)
      else if m = 3 \<or> m = 5 \<or> m = 8 \<or> m = 10 then 30
      else 31)"

text \<open>
  The edges of a closed outline with vertices \<open>vs\<close>: from each vertex to the next, and
  from the last back to the first. An edge is purely horizontal when its ends differ in
  the abscissa only, purely vertical when they differ in the ordinate only.
\<close>

type_synonym edge = "point \<times> point"

definition edges :: "point list \<Rightarrow> edge list" where
  "edges vs = zip vs (rotate1 vs)"

definition horizontal :: "edge \<Rightarrow> bool" where
  "horizontal e = (snd (fst e) = snd (snd e) \<and> fst (fst e) \<noteq> fst (snd e))"

definition vertical :: "edge \<Rightarrow> bool" where
  "vertical e = (fst (fst e) = fst (snd e) \<and> snd (fst e) \<noteq> snd (snd e))"

fun alternating :: "edge list \<Rightarrow> bool" where
  "alternating [] = True"
| "alternating [e] = False"
| "alternating (h # v # es) = (horizontal h \<and> vertical v \<and> alternating es)"

text \<open>
  Two axis-parallel segments meet when their extents overlap in both coordinates, and
  touch in one point when both overlaps are a single value.
\<close>

definition overlap_lo :: "int \<Rightarrow> int \<Rightarrow> int \<Rightarrow> int \<Rightarrow> int" where
  "overlap_lo a b c d = max (min a b) (min c d)"

definition overlap_hi :: "int \<Rightarrow> int \<Rightarrow> int \<Rightarrow> int \<Rightarrow> int" where
  "overlap_hi a b c d = min (max a b) (max c d)"

definition seg_meet :: "edge \<Rightarrow> edge \<Rightarrow> bool" where
  "seg_meet e f =
     (overlap_lo (fst (fst e)) (fst (snd e)) (fst (fst f)) (fst (snd f))
        \<le> overlap_hi (fst (fst e)) (fst (snd e)) (fst (fst f)) (fst (snd f))
      \<and> overlap_lo (snd (fst e)) (snd (snd e)) (snd (fst f)) (snd (snd f))
        \<le> overlap_hi (snd (fst e)) (snd (snd e)) (snd (fst f)) (snd (snd f)))"

definition seg_touch :: "edge \<Rightarrow> edge \<Rightarrow> bool" where
  "seg_touch e f =
     (overlap_lo (fst (fst e)) (fst (snd e)) (fst (fst f)) (fst (snd f))
        = overlap_hi (fst (fst e)) (fst (snd e)) (fst (fst f)) (fst (snd f))
      \<and> overlap_lo (snd (fst e)) (snd (snd e)) (snd (fst f)) (snd (snd f))
        = overlap_hi (snd (fst e)) (snd (snd e)) (snd (fst f)) (snd (snd f)))"

fun none_meet :: "edge \<Rightarrow> edge list \<Rightarrow> bool" where
  "none_meet e [] = True"
| "none_meet e (f # fs) = (\<not> seg_meet e f \<and> none_meet e fs)"

fun chain_simple :: "edge list \<Rightarrow> bool" where
  "chain_simple [] = True"
| "chain_simple [e] = True"
| "chain_simple (e # f # fs) = (seg_touch e f \<and> none_meet e fs \<and> chain_simple (f # fs))"

text \<open>
  A closed outline does not intersect itself when consecutive edges (the last and the
  first included) touch in one point only and no other two edges meet.
\<close>

definition simple_loop :: "point list \<Rightarrow> bool" where
  "simple_loop vs =
     (case edges vs of
        e # f # g # fs \<Rightarrow>
          seg_touch e f \<and> none_meet e (butlast (g # fs)) \<and> seg_touch (last (g # fs)) e
          \<and> chain_simple (f # g # fs)
      | _ \<Rightarrow> False)"

text \<open>
  The corners of an outline: its vertices without immediate repetitions, the last
  against the first included.
\<close>

definition corners :: "point list \<Rightarrow> point list" where
  "corners vs =
     (let ws = remdups_adj vs
      in if 1 < length ws \<and> hd ws = last ws then butlast ws else ws)"

section \<open>Calendar arithmetic\<close>

subsection \<open>Years\<close>

lemma div_lo: "0 < k \<Longrightarrow> k * ((n::int) div k) \<le> n"
  using mult_div_mod_eq[of k n] pos_mod_sign[of k n] by linarith

lemma div_hi: "0 < k \<Longrightarrow> (n::int) + 1 \<le> k * (n div k) + k"
  using mult_div_mod_eq[of k n] pos_mod_bound[of k n] by linarith

lemma div_succ:
  fixes n k :: int
  assumes "0 < k"
  shows "(n + 1) div k = n div k + (if (n + 1) mod k = 0 then 1 else 0)"
proof (cases "n mod k + 1 = k")
  case True
  have "k * (n div k + 1) = k * (n div k) + k"
    by (simp add: algebra_simps)
  then have "n + 1 = k * (n div k + 1) + 0"
    using mult_div_mod_eq[of k n] True by linarith
  from int_div_pos_eq[OF this] int_mod_pos_eq[OF this] assms
  show ?thesis by simp
next
  case False
  have r: "0 \<le> n mod k + 1" "n mod k + 1 < k"
    using pos_mod_sign[OF assms, of n] pos_mod_bound[OF assms, of n] False by linarith+
  have "n + 1 = k * (n div k) + (n mod k + 1)"
    using mult_div_mod_eq[of k n] by simp
  from int_div_pos_eq[OF this r] int_mod_pos_eq[OF this r]
  have d: "(n + 1) div k = n div k" and m: "(n + 1) mod k = n mod k + 1" .
  have "(n + 1) mod k \<noteq> 0"
    using pos_mod_sign[OF assms, of n] m by linarith
  with d show ?thesis by simp
qed

lemma mod_400_100: "(y::int) mod 400 = 0 \<Longrightarrow> y mod 100 = 0"
  using mod_mod_cancel[of 100 400 y] by simp

lemma mod_100_4: "(y::int) mod 100 = 0 \<Longrightarrow> y mod 4 = 0"
  using mod_mod_cancel[of 4 100 y] by simp

lemma DaysInYear_cases:
  "DaysInYear y = 365 + (if y mod 4 = 0 then 1 else 0) - (if y mod 100 = 0 then 1 else 0)
     + (if y mod 400 = 0 then 1 else 0)"
proof (cases "y mod 400 = 0")
  case True
  with mod_400_100[of y] mod_100_4[of y] show ?thesis
    by (simp add: DaysInYear_def InLeapYear_def)
next
  case False
  then show ?thesis
    using mod_100_4[of y] by (cases "y mod 100 = 0") (simp_all add: DaysInYear_def InLeapYear_def)
qed

lemma DayFromYear_succ: "DayFromYear (y + 1) = DayFromYear y + DaysInYear y"
proof -
  define a :: int where "a = (if y mod 4 = 0 then 1 else 0)"
  define b :: int where "b = (if y mod 100 = 0 then 1 else 0)"
  define c :: int where "c = (if y mod 400 = 0 then 1 else 0)"
  have e: "y + 1 - 1969 = (y - 1969) + 1" "y + 1 - 1901 = (y - 1901) + 1"
    "y + 1 - 1601 = (y - 1601) + 1"
    by simp_all
  have m4: "(y - 1969 + 1) mod 4 = y mod 4"
    using mod_add_right_eq[of y "-1968" 4] by (simp add: algebra_simps)
  have m100: "(y - 1901 + 1) mod 100 = y mod 100"
    using mod_add_right_eq[of y "-1900" 100] by (simp add: algebra_simps)
  have m400: "(y - 1601 + 1) mod 400 = y mod 400"
    using mod_add_right_eq[of y "-1600" 400] by (simp add: algebra_simps)
  have d4: "(y - 1969 + 1) div 4 = (y - 1969) div 4 + a"
    using div_succ[of 4 "y - 1969"] unfolding m4 a_def by simp
  have d100: "(y - 1901 + 1) div 100 = (y - 1901) div 100 + b"
    using div_succ[of 100 "y - 1901"] unfolding m100 b_def by simp
  have d400: "(y - 1601 + 1) div 400 = (y - 1601) div 400 + c"
    using div_succ[of 400 "y - 1601"] unfolding m400 c_def by simp
  have "DayFromYear (y + 1) = DayFromYear y + (365 + a - b + c)"
    unfolding DayFromYear_def e d4 d100 d400 by (simp add: algebra_simps)
  then show ?thesis
    unfolding DaysInYear_cases a_def b_def c_def by simp
qed

lemma DayFromYear_lin_hi:
  fixes y q4 q100 q400 :: int
  assumes "4 * q4 \<le> y - 1969" "y - 1901 + 1 \<le> 100 * q100 + 100" "400 * q400 \<le> y - 1601"
  shows "400 * (365 * (y - 1970) + q4 - q100 + q400) \<le> 146097 * y - 287810501"
  using assms by (simp add: algebra_simps)

lemma DayFromYear_lin_lo:
  fixes y q4 q100 q400 :: int
  assumes "y - 1969 + 1 \<le> 4 * q4 + 4" "100 * q100 \<le> y - 1901" "y - 1601 + 1 \<le> 400 * q400 + 400"
  shows "146097 * y - 287811596 \<le> 400 * (365 * (y - 1970) + q4 - q100 + q400)"
  using assms by (simp add: algebra_simps)

lemma DayFromYear_hi: "400 * DayFromYear y \<le> 146097 * y - 287810501"
  unfolding DayFromYear_def
  by (rule DayFromYear_lin_hi) (rule div_lo div_hi, simp)+

lemma DayFromYear_lo: "146097 * y - 287811596 \<le> 400 * DayFromYear y"
  unfolding DayFromYear_def
  by (rule DayFromYear_lin_lo) (rule div_lo div_hi, simp)+

text \<open>
  A date holds a whole number of days from 1 January 1970 of at most 100,000,000 either
  way. The years from -271820 to 275759 lie within that range from their first day to
  the first day of the year that follows.
\<close>

lemma DayFromYear_range:
  assumes "- 271820 \<le> y" "y \<le> 275760"
  shows "- 100000000 \<le> DayFromYear y" "DayFromYear y \<le> 100000000"
proof -
  have "146097 * y - 287811596 \<le> 400 * DayFromYear y" by (rule DayFromYear_lo)
  with assms(1) show "- 100000000 \<le> DayFromYear y" by linarith
  have "400 * DayFromYear y \<le> 146097 * y - 287810501" by (rule DayFromYear_hi)
  with assms(2) show "DayFromYear y \<le> 100000000" by linarith
qed

lemma YearFromTime_bounds:
  "DayFromYear (YearFromTime t) \<le> t \<and> t < DayFromYear (YearFromTime t + 1)"
proof -
  define y where "y = 1970 + (400 * t) div 146097"
  have a: "146097 * y - 287811090 \<le> 400 * t" "400 * t + 1 \<le> 146097 * y - 287664993"
    using div_lo[of 146097 "400 * t"] div_hi[of 146097 "400 * t"] by (simp_all add: y_def)
  have lo: "DayFromYear (y - 1) \<le> t"
  proof -
    define z where "z = y - 1"
    have "400 * DayFromYear z \<le> 146097 * z - 287810501" by (rule DayFromYear_hi)
    with a z_def have "DayFromYear z \<le> t" by linarith
    then show ?thesis by (simp add: z_def)
  qed
  have hi: "t < DayFromYear (y + 1 + 1)"
  proof -
    define z where "z = y + 2"
    have "146097 * z - 287811596 \<le> 400 * DayFromYear z" by (rule DayFromYear_lo)
    with a z_def have "t < DayFromYear z" by linarith
    then show ?thesis by (simp add: z_def add.commute)
  qed
  have Y: "YearFromTime t = (if t < DayFromYear y then y - 1
         else if DayFromYear (y + 1) \<le> t then y + 1 else y)"
    by (simp add: YearFromTime_def y_def Let_def)
  show ?thesis
    using lo hi by (auto simp: Y)
qed

lemma DaysInYear_pos: "365 \<le> DaysInYear y" "DaysInYear y \<le> 366"
  by (simp_all add: DaysInYear_def)

lemma DayFromYear_mono: "y \<le> z \<Longrightarrow> DayFromYear y \<le> DayFromYear z"
proof (induction "nat (z - y)" arbitrary: z)
  case 0
  then show ?case by simp
next
  case (Suc n)
  then have "n = nat ((z - 1) - y)" "y \<le> z - 1" by linarith+
  from Suc(1)[OF this] DayFromYear_succ[of "z - 1"] DaysInYear_pos(1)[of "z - 1"]
  show ?case by simp
qed

lemma YearFromTime_unique:
  assumes "DayFromYear y \<le> t" "t < DayFromYear (y + 1)"
  shows "YearFromTime t = y"
proof (rule ccontr)
  assume n: "YearFromTime t \<noteq> y"
  let ?z = "YearFromTime t"
  from YearFromTime_bounds[of t] have b: "DayFromYear ?z \<le> t" "t < DayFromYear (?z + 1)" by simp_all
  show False
  proof (cases "?z < y")
    case True
    then have "DayFromYear (?z + 1) \<le> DayFromYear y" by (intro DayFromYear_mono) simp
    with b assms show False by linarith
  next
    case False
    with n have "y + 1 \<le> ?z" by simp
    then have "DayFromYear (y + 1) \<le> DayFromYear ?z" by (rule DayFromYear_mono)
    with b assms show False by linarith
  qed
qed

subsection \<open>Months and days\<close>

lemma DayWithinYear_bounds:
  "0 \<le> DayWithinYear t" "DayWithinYear t < DaysInYear (YearFromTime t)"
  using YearFromTime_bounds[of t] DayFromYear_succ[of "YearFromTime t"]
  by (simp_all add: DayWithinYear_def)

lemma YearFromTime_offset:
  assumes "0 \<le> k" "k < DaysInYear y"
  shows "YearFromTime (DayFromYear y + k) = y"
  using assms DayFromYear_succ[of y] by (intro YearFromTime_unique) simp_all

lemma DayWithinYear_offset:
  assumes "0 \<le> k" "k < DaysInYear y"
  shows "DayWithinYear (DayFromYear y + k) = k"
  by (simp add: DayWithinYear_def YearFromTime_offset[OF assms])

lemma MakeDay_month:
  assumes "0 \<le> m" "m \<le> 11"
  shows "MakeDay y m d = DayFromYear y + MonthStart y m + d - 1"
  using assms by (simp add: MakeDay_def)

lemma timeYear_eq: "timeYear t = DayFromYear (YearFromTime t)"
  by (simp add: timeYear_def getFullYear_def MakeDay_def MonthStart_def)

lemma MonthFromTime_range: "0 \<le> MonthFromTime t \<and> MonthFromTime t \<le> 11"
  by (simp add: MonthFromTime_def Let_def)

lemma MonthStart_le:
  "MonthStart (YearFromTime t) (MonthFromTime t) \<le> DayWithinYear t"
  using DayWithinYear_bounds(1)[of t]
  by (simp add: MonthFromTime_def MonthStart_def Let_def)

subsection \<open>Weeks\<close>

lemma week_floor: "timeWeek_floor t = 7 * ((t + 4) div 7) - 4"
proof -
  have "(WeekDay t + 7 - 0) mod 7 = (t + 4) mod 7"
    by (simp add: WeekDay_def)
  then show ?thesis
    unfolding timeWeek_floor_def getDay_def
    using mult_div_mod_eq[of 7 "t + 4"] by linarith
qed

lemma week_count: "timeWeek_count a b = (b + 4) div 7 - (a + 4) div 7"
proof -
  have "timeWeek_floor b - timeWeek_floor a = 7 * ((b + 4) div 7 - (a + 4) div 7)"
    by (simp add: week_floor algebra_simps)
  then show ?thesis by (simp add: timeWeek_count_def)
qed

lemma getWeekNumber_eq:
  "getWeekNumber t = (t + 4) div 7 - (DayFromYear (YearFromTime t) + 4) div 7"
  by (simp add: getWeekNumber_def week_count timeYear_eq)

lemma div7_shift:
  fixes x k :: int
  assumes "0 \<le> k"
  shows "x div 7 \<le> (x + k) div 7" "(x + k) div 7 \<le> x div 7 + (k + 6) div 7"
proof -
  show "x div 7 \<le> (x + k) div 7" using assms by (intro zdiv_mono1) simp_all
  have "7 * ((x + k) div 7) \<le> x + k" "x + 1 \<le> 7 * (x div 7) + 7"
    "k + 6 + 1 \<le> 7 * ((k + 6) div 7) + 7"
    using div_lo[of 7 "x + k"] div_hi[of 7 x] div_hi[of 7 "k + 6"] by simp_all
  then show "(x + k) div 7 \<le> x div 7 + (k + 6) div 7" by linarith
qed

lemma getWeekNumber_bounds: "0 \<le> getWeekNumber t \<and> getWeekNumber t \<le> 53"
proof -
  define J where "J = DayFromYear (YearFromTime t)"
  define k where "k = DayWithinYear t"
  have k: "0 \<le> k" "k \<le> 365"
    using DayWithinYear_bounds[of t] DaysInYear_pos(2)[of "YearFromTime t"]
    by (simp_all add: k_def)
  have w: "getWeekNumber t = (J + 4 + k) div 7 - (J + 4) div 7"
    unfolding getWeekNumber_eq J_def k_def DayWithinYear_def by (simp add: algebra_simps)
  have "(k + 6) div 7 \<le> 371 div 7" using k by (intro zdiv_mono1) simp_all
  then have "(k + 6) div 7 \<le> 53" by simp
  with div7_shift[OF k(1), of "J + 4"] show ?thesis unfolding w by linarith
qed

lemma getDayNumber_bounds: "0 \<le> getDayNumber t \<and> getDayNumber t \<le> 6"
  by (simp add: getDayNumber_def getDay_def WeekDay_def)

lemma sunday_count:
  "a \<le> b \<Longrightarrow> int (weekBoundariesCrossed a b) = (b + 4) div 7 - (a + 4) div 7"
proof (induction "nat (b - a)" arbitrary: b)
  case 0
  then have "b = a" by simp
  then show ?case by (simp add: weekBoundariesCrossed_def)
next
  case (Suc n)
  then have n: "n = nat ((b - 1) - a)" and le: "a \<le> b - 1" "a + 1 \<le> b" by linarith+
  have IH: "int (weekBoundariesCrossed a (b - 1)) = (b - 1 + 4) div 7 - (a + 4) div 7"
    by (rule Suc(1)[OF n le(1)])
  have step: "(b - 1 + 4 + 1) div 7 = (b - 1 + 4) div 7 + (if (b - 1 + 4 + 1) mod 7 = 0 then 1 else 0)"
    by (rule div_succ) simp
  have b4: "b - 1 + 4 + 1 = b + 4" by simp
  have "weekBoundariesCrossed a b =
      weekBoundariesCrossed a (b - 1) + (if (b + 4) mod 7 = 0 then 1 else 0)"
    unfolding weekBoundariesCrossed_def upto_rec2[OF le(2)]
    by (simp add: getDay_def WeekDay_def)
  then show ?case
    using IH step unfolding b4 by simp
qed

lemma timeYear_le: "timeYear t \<le> t" "t < timeYear t + DaysInYear (getFullYear t)"
  using YearFromTime_bounds[of t] DayFromYear_succ[of "YearFromTime t"]
  by (simp_all add: timeYear_eq getFullYear_def)

lemma MakeDay_0_1: "MakeDay y 0 1 = DayFromYear y"
  by (simp add: MakeDay_def MonthStart_def)

lemma getFullYear_MakeDay_0_1: "getFullYear (MakeDay y 0 1) = y"
  using YearFromTime_offset[of 0 y] DaysInYear_pos(1)[of y]
  by (simp add: MakeDay_0_1 getFullYear_def)

subsection \<open>The days of a year\<close>

lemma new_Date_full: "year < 0 \<or> 99 < year \<Longrightarrow> new_Date year m d = MakeDay year m d"
  by (auto simp: new_Date_def)

lemma getAllDaysInYear_eq:
  assumes "year < -1 \<or> 99 < year"
  shows "getAllDaysInYear year = [DayFromYear year..DayFromYear year + DaysInYear year - 1]"
proof -
  have "new_Date year 0 1 = DayFromYear year"
    using assms by (subst new_Date_full) (auto simp: MakeDay_0_1)
  moreover have "new_Date (year + 1) 0 1 = DayFromYear (year + 1)"
    using assms by (subst new_Date_full) (auto simp: MakeDay_0_1)
  ultimately show ?thesis
    by (simp add: getAllDaysInYear_def timeDays_def DayFromYear_succ)
qed

lemma MakeDay_11_31: "MakeDay y 11 31 = DayFromYear y + DaysInYear y - 1"
  by (simp add: MakeDay_def MonthStart_def DaysInYear_def)

lemma fields_first_day:
  "getFullYear (DayFromYear y) = y \<and> getMonth (DayFromYear y) = 0 \<and> getDate (DayFromYear y) = 1"
proof -
  have "YearFromTime (DayFromYear y) = y" "DayWithinYear (DayFromYear y) = 0"
    using YearFromTime_offset[of 0 y] DayWithinYear_offset[of 0 y] DaysInYear_pos(1)[of y]
    by simp_all
  then show ?thesis
    by (simp add: getFullYear_def getMonth_def getDate_def MonthFromTime_def DateFromTime_def
        MonthStart_def)
qed

lemma fields_last_day:
  "getFullYear (DayFromYear y + DaysInYear y - 1) = y
   \<and> getMonth (DayFromYear y + DaysInYear y - 1) = 11
   \<and> getDate (DayFromYear y + DaysInYear y - 1) = 31"
proof -
  have k: "0 \<le> DaysInYear y - 1" "DaysInYear y - 1 < DaysInYear y"
    using DaysInYear_pos(1)[of y] by simp_all
  have e: "DayFromYear y + DaysInYear y - 1 = DayFromYear y + (DaysInYear y - 1)" by simp
  have "YearFromTime (DayFromYear y + DaysInYear y - 1) = y"
    "DayWithinYear (DayFromYear y + DaysInYear y - 1) = DaysInYear y - 1"
    unfolding e using YearFromTime_offset[OF k] DayWithinYear_offset[OF k] by simp_all
  then show ?thesis
    by (simp add: getFullYear_def getMonth_def getDate_def MonthFromTime_def DateFromTime_def
        MonthStart_def DaysInYear_def)
qed

text \<open>
  The constructor reads a year from 0 to 99 as a year of the twentieth century: for such
  a year the dates returned are not those of the year, and day 0 of the month that
  follows is not a day of the given month. The drawing passes the years 2016 to 2099
  only.
\<close>

lemma two_digit_years:
  "getAllDaysInYear 99 = []
   \<and> getFullYear (hd (getAllDaysInYear 50)) = 1950
   \<and> getFullYear (nextMonth (MakeDay 50 0 1)) = 1950"
  by code_simp

subsection \<open>The first and the last day of a month\<close>

lemma month_cases:
  fixes m :: int
  assumes "0 \<le> m" "m \<le> 11"
  shows "m = 0 \<or> m = 1 \<or> m = 2 \<or> m = 3 \<or> m = 4 \<or> m = 5 \<or> m = 6 \<or> m = 7 \<or> m = 8
         \<or> m = 9 \<or> m = 10 \<or> m = 11"
  using assms by presburger

lemma MakeDay_day_0:
  assumes "0 \<le> m" "m \<le> 11"
  shows "MakeDay y (m + 1) 0 = DayFromYear y + MonthStart y m + DaysInMonth y m - 1"
  using month_cases[OF assms]
  by (elim disjE) (simp_all add: MakeDay_def MonthStart_def DaysInMonth_def DayFromYear_succ
      DaysInYear_def)

lemma MonthStart_bounds:
  assumes "0 \<le> m" "m \<le> 11"
  shows "0 \<le> MonthStart y m" "MonthStart y m + DaysInMonth y m \<le> DaysInYear y"
    "28 \<le> DaysInMonth y m" "DaysInMonth y m \<le> 31" "MonthStart y m \<le> MonthStart z m + 1"
  using month_cases[OF assms]
  by (elim disjE; simp add: MonthStart_def DaysInMonth_def DaysInYear_def)+

lemma first_of_month:
  assumes "getDate t = 1"
  shows "t = DayFromYear (getFullYear t) + MonthStart (getFullYear t) (getMonth t)"
  using assms
  by (simp add: getDate_def DateFromTime_def DayWithinYear_def getFullYear_def getMonth_def)

lemma div7_add:
  fixes x k :: int
  shows "k div 7 \<le> (x + k) div 7 - x div 7" "(x + k) div 7 - x div 7 \<le> k div 7 + 1"
proof -
  have f: "7 * (x div 7) \<le> x" "x + 1 \<le> 7 * (x div 7) + 7"
    "7 * (k div 7) \<le> k" "k + 1 \<le> 7 * (k div 7) + 7"
    "7 * ((x + k) div 7) \<le> x + k" "x + k + 1 \<le> 7 * ((x + k) div 7) + 7"
    using div_lo[of 7 x] div_hi[of 7 x] div_lo[of 7 k] div_hi[of 7 k]
      div_lo[of 7 "x + k"] div_hi[of 7 "x + k"] by simp_all
  show "k div 7 \<le> (x + k) div 7 - x div 7" using f by linarith
  show "(x + k) div 7 - x div 7 \<le> k div 7 + 1" using f by linarith
qed

lemma getWeekNumber_offset:
  assumes "0 \<le> k" "k < DaysInYear y"
  shows "getWeekNumber (DayFromYear y + k) = (DayFromYear y + 4 + k) div 7 - (DayFromYear y + 4) div 7"
  unfolding getWeekNumber_eq YearFromTime_offset[OF assms] by (simp add: algebra_simps)

lemma nextMonth_first:
  assumes "getDate t = 1"
  defines "z \<equiv> (if 0 \<le> getFullYear t \<and> getFullYear t \<le> 99 then 1900 + getFullYear t
                   else getFullYear t)"
  shows "nextMonth t = DayFromYear z + (MonthStart z (getMonth t) + DaysInMonth z (getMonth t) - 1)"
proof -
  have m: "0 \<le> getMonth t" "getMonth t \<le> 11"
    using MonthFromTime_range[of t] by (simp_all add: getMonth_def)
  show ?thesis
    unfolding nextMonth_def new_Date_def z_def[symmetric] MakeDay_day_0[OF m] by simp
qed

lemma week_span_any:
  assumes "getDate t = 1"
  shows "getWeekNumber t + 2 \<le> getWeekNumber (nextMonth t)"
proof -
  define y where "y = getFullYear t"
  define m where "m = getMonth t"
  define z where "z = (if 0 \<le> y \<and> y \<le> 99 then 1900 + y else y)"
  have m: "0 \<le> m" "m \<le> 11"
    using MonthFromTime_range[of t] by (simp_all add: getMonth_def m_def)
  note b = MonthStart_bounds[OF m]
  have t: "t = DayFromYear y + MonthStart y m"
    using first_of_month[OF assms] by (simp add: y_def m_def)
  have n: "nextMonth t = DayFromYear z + (MonthStart z m + DaysInMonth z m - 1)"
    using nextMonth_first[OF assms] by (simp add: y_def m_def z_def)
  have k1: "0 \<le> MonthStart y m" "MonthStart y m < DaysInYear y"
    using b(1)[of y] b(2)[of y] b(3)[of y] by linarith+
  have k2: "0 \<le> MonthStart z m + DaysInMonth z m - 1"
    "MonthStart z m + DaysInMonth z m - 1 < DaysInYear z"
    using b(1)[of z] b(2)[of z] b(3)[of z] by linarith+
  have w1: "getWeekNumber t \<le> MonthStart y m div 7 + 1"
    using getWeekNumber_offset[OF k1] div7_add(2)[of "DayFromYear y + 4" "MonthStart y m"]
    unfolding t[symmetric] by simp
  have w2: "(MonthStart z m + DaysInMonth z m - 1) div 7 \<le> getWeekNumber (nextMonth t)"
    using getWeekNumber_offset[OF k2]
      div7_add(1)[of "MonthStart z m + DaysInMonth z m - 1" "DayFromYear z + 4"]
    unfolding n by simp
  have "MonthStart y m + 21 \<le> MonthStart z m + DaysInMonth z m - 1"
    using b(5)[of y z] b(3)[of z] by linarith
  then have "(MonthStart y m + 21) div 7 \<le> (MonthStart z m + DaysInMonth z m - 1) div 7"
    by (intro zdiv_mono1) simp_all
  moreover have "(MonthStart y m + 21) div 7 = MonthStart y m div 7 + 3"
    by simp
  ultimately show ?thesis using w1 w2 by linarith
qed

lemma week_span_full:
  assumes "getDate t = 1" "getFullYear t < 0 \<or> 99 < getFullYear t"
  shows "getWeekNumber t + 3 \<le> getWeekNumber (nextMonth t)"
    "getWeekNumber (nextMonth t) \<le> getWeekNumber t + 5"
proof -
  define y where "y = getFullYear t"
  define m where "m = getMonth t"
  have m: "0 \<le> m" "m \<le> 11"
    using MonthFromTime_range[of t] by (simp_all add: getMonth_def m_def)
  note b = MonthStart_bounds[OF m]
  have t: "t = DayFromYear y + MonthStart y m"
    using first_of_month[OF assms(1)] by (simp add: y_def m_def)
  have n: "nextMonth t = DayFromYear y + (MonthStart y m + DaysInMonth y m - 1)"
    using nextMonth_first[OF assms(1)] assms(2) by (auto simp: y_def m_def)
  have k1: "0 \<le> MonthStart y m" "MonthStart y m < DaysInYear y"
    using b(1)[of y] b(2)[of y] b(3)[of y] by linarith+
  have k2: "0 \<le> MonthStart y m + DaysInMonth y m - 1"
    "MonthStart y m + DaysInMonth y m - 1 < DaysInYear y"
    using b(1)[of y] b(2)[of y] b(3)[of y] by linarith+
  define x where "x = DayFromYear y + 4 + MonthStart y m"
  define d where "d = DaysInMonth y m - 1"
  have d: "27 \<le> d" "d \<le> 30" using b(3)[of y] b(4)[of y] by (simp_all add: d_def)
  have w1: "getWeekNumber t = x div 7 - (DayFromYear y + 4) div 7"
    using getWeekNumber_offset[OF k1] unfolding t[symmetric] x_def by simp
  have w2: "getWeekNumber (nextMonth t) = (x + d) div 7 - (DayFromYear y + 4) div 7"
    using getWeekNumber_offset[OF k2] unfolding n x_def d_def by (simp add: algebra_simps)
  have "(x + 21) div 7 \<le> (x + d) div 7" "(x + d) div 7 \<le> (x + 35) div 7"
    using d by (intro zdiv_mono1; simp)+
  moreover have "(x + 21) div 7 = x div 7 + 3" "(x + 35) div 7 = x div 7 + 5" by simp_all
  ultimately show "getWeekNumber t + 3 \<le> getWeekNumber (nextMonth t)"
    "getWeekNumber (nextMonth t) \<le> getWeekNumber t + 5"
    unfolding w1 w2 by linarith+
qed

lemma fields_MakeDay:
  assumes "0 \<le> m" "m \<le> 11" "1 \<le> d" "d \<le> DaysInMonth y m"
  shows "getFullYear (MakeDay y m d) = y" "getMonth (MakeDay y m d) = m"
    "getDate (MakeDay y m d) = d"
proof -
  define k where "k = MonthStart y m + (d - 1)"
  have k: "0 \<le> k" "k < DaysInYear y"
    using MonthStart_bounds(1,2)[OF assms(1,2), of y] assms(3,4) by (simp_all add: k_def)
  have t: "MakeDay y m d = DayFromYear y + k"
    by (simp add: MakeDay_month[OF assms(1,2)] k_def)
  have Y: "YearFromTime (DayFromYear y + k) = y" by (rule YearFromTime_offset[OF k])
  have W: "DayWithinYear (DayFromYear y + k) = k" by (rule DayWithinYear_offset[OF k])
  show "getFullYear (MakeDay y m d) = y" by (simp add: getFullYear_def t Y)
  have "MonthFromTime (DayFromYear y + k) =
      (let leap = (if InLeapYear y then 1 else 0)
       in if k < 31 then 0
          else if k < 59 + leap then 1
          else if k < 90 + leap then 2
          else if k < 120 + leap then 3
          else if k < 151 + leap then 4
          else if k < 181 + leap then 5
          else if k < 212 + leap then 6
          else if k < 243 + leap then 7
          else if k < 273 + leap then 8
          else if k < 304 + leap then 9
          else if k < 334 + leap then 10
          else 11)"
    by (simp only: MonthFromTime_def W Y Let_def)
  also have "\<dots> = m"
    unfolding k_def Let_def
    using month_cases[OF assms(1,2)] assms(3,4)
    by (elim disjE) (simp_all add: MonthStart_def DaysInMonth_def split: if_splits)
  finally have M: "MonthFromTime (DayFromYear y + k) = m" .
  show "getMonth (MakeDay y m d) = m" by (simp add: getMonth_def t M)
  show "getDate (MakeDay y m d) = d"
    unfolding getDate_def DateFromTime_def t W Y M by (simp add: k_def)
qed

text \<open>
  For a month given as the date of its first day, in a year that is not one of 0 to 99,
  \<open>nextMonth\<close> is the last day of that month: it has the same year and month, its day
  of the month is the number of days of the month, and the day after it is a first of
  the month.
\<close>

lemma nextMonth_last_day:
  assumes "getDate month = 1" "getFullYear month < 0 \<or> 99 < getFullYear month"
  shows "nextMonth month = MakeDay (getFullYear month) (getMonth month)
           (DaysInMonth (getFullYear month) (getMonth month))
    \<and> nextMonth month = month + DaysInMonth (getFullYear month) (getMonth month) - 1
    \<and> getFullYear (nextMonth month) = getFullYear month
    \<and> getMonth (nextMonth month) = getMonth month
    \<and> getDate (nextMonth month) = DaysInMonth (getFullYear month) (getMonth month)
    \<and> getDate (nextMonth month + 1) = 1"
proof -
  define y where "y = getFullYear month"
  define m where "m = getMonth month"
  have m: "0 \<le> m" "m \<le> 11"
    using MonthFromTime_range[of month] by (simp_all add: getMonth_def m_def)
  note b = MonthStart_bounds[OF m, of y]
  have t: "month = DayFromYear y + MonthStart y m"
    using first_of_month[OF assms(1)] by (simp add: y_def m_def)
  have n: "nextMonth month = DayFromYear y + (MonthStart y m + DaysInMonth y m - 1)"
    using nextMonth_first[OF assms(1)] assms(2) by (auto simp: y_def m_def)
  have e: "nextMonth month = MakeDay y m (DaysInMonth y m)"
    unfolding n MakeDay_month[OF m] by simp
  have d: "1 \<le> DaysInMonth y m" "DaysInMonth y m \<le> DaysInMonth y m" using b(3) by simp_all
  note f = fields_MakeDay[OF m d]
  have "MakeDay y (m + 1) 1 = MakeDay y (m + 1) 0 + 1"
    by (simp add: MakeDay_def Let_def)
  then have s: "nextMonth month + 1 = MakeDay y (m + 1) 1"
    unfolding n MakeDay_day_0[OF m, of y] by simp
  have "getDate (nextMonth month + 1) = 1"
  proof (cases "m = 11")
    case True
    have "MakeDay y (m + 1) 1 = DayFromYear (y + 1)"
      by (simp add: True MakeDay_def MonthStart_def)
    then show ?thesis
      unfolding s using fields_first_day[of "y + 1"] by simp
  next
    case False
    with m have m': "0 \<le> m + 1" "m + 1 \<le> 11" by simp_all
    have "1 \<le> DaysInMonth y (m + 1)" using MonthStart_bounds(3)[OF m', of y] by simp
    from fields_MakeDay(3)[OF m' _ this] show ?thesis unfolding s by simp
  qed
  with e f t n show ?thesis unfolding y_def[symmetric] m_def[symmetric] by simp
qed

section \<open>Writing and reading path descriptions\<close>

lemma digit_char:
  assumes "k < 10"
  shows "is_digit (''0123456789'' ! k)" "digit_value (''0123456789'' ! k) = k"
proof -
  from assms have "k = 0 \<or> k = 1 \<or> k = 2 \<or> k = 3 \<or> k = 4 \<or> k = 5 \<or> k = 6 \<or> k = 7
      \<or> k = 8 \<or> k = 9" by presburger
  then show "is_digit (''0123456789'' ! k)" "digit_value (''0123456789'' ! k) = k"
    by (auto simp: is_digit_def digit_value_def)
qed

lemma digits_are_digits: "c \<in> set (digits n) \<Longrightarrow> is_digit c"
proof (induction n arbitrary: c rule: digits.induct)
  case (1 n)
  show ?case
  proof (cases "n < 10")
    case True
    with 1(2) show ?thesis by (simp add: digits.simps[of n] digit_char(1))
  next
    case False
    have "n mod 10 < 10" by simp
    with False 1 show ?thesis
      by (auto simp: digits.simps[of n] digit_char(1))
  qed
qed

lemma digits_nonempty: "digits n \<noteq> []"
  by (simp add: digits.simps[of n])

lemma digits_value: "foldl (\<lambda>a c. 10 * a + digit_value c) 0 (digits n) = n"
proof (induction n rule: digits.induct)
  case (1 n)
  show ?case
  proof (cases "n < 10")
    case True
    then show ?thesis by (simp add: digits.simps[of n] digit_char(2))
  next
    case False
    have "n mod 10 < 10" by simp
    with False 1 show ?thesis
      by (simp add: digits.simps[of n] digit_char(2))
  qed
qed

lemma read_digits_stop: "r = [] \<or> \<not> is_digit (hd r) \<Longrightarrow> read_digits r acc = (acc, r)"
  by (cases r) auto

lemma read_digits_append:
  "(\<And>c. c \<in> set ds \<Longrightarrow> is_digit c) \<Longrightarrow>
     read_digits (ds @ r) acc = read_digits r (foldl (\<lambda>a c. 10 * a + digit_value c) acc ds)"
  by (induction ds arbitrary: acc) auto

lemma read_digits_digits:
  assumes "r = [] \<or> \<not> is_digit (hd r)"
  shows "read_digits (digits n @ r) 0 = (n, r)"
  using read_digits_append[of "digits n" r 0] digits_are_digits[of _ n]
  by (simp add: digits_value read_digits_stop[OF assms])

lemma read_number_number_string:
  assumes "r = [] \<or> \<not> is_digit (hd r)"
  shows "read_number (number_string i @ r) = Some (i, r)"
proof -
  have nd: "\<not> is_digit CHR ''-''" by (simp add: is_digit_def)
  show ?thesis
  proof (cases "i < 0")
    case True
    obtain c ds where d: "digits (nat (- i)) = c # ds"
      using digits_nonempty[of "nat (- i)"] by (cases "digits (nat (- i))") auto
    have c: "is_digit c" using digits_are_digits[of c "nat (- i)"] d by simp
    have "read_digits (c # ds @ r) 0 = (nat (- i), r)"
      using read_digits_digits[OF assms, of "nat (- i)"] d by simp
    with True c show ?thesis
      by (simp add: read_number_def number_string_def d del: read_digits.simps)
  next
    case False
    obtain c ds where d: "digits (nat i) = c # ds"
      using digits_nonempty[of "nat i"] by (cases "digits (nat i)") auto
    have c: "is_digit c" using digits_are_digits[of c "nat i"] d by simp
    then have m: "c \<noteq> CHR ''-''" using nd by auto
    have "read_digits (c # ds @ r) 0 = (nat i, r)"
      using read_digits_digits[OF assms, of "nat i"] d by simp
    with False c m show ?thesis
      by (simp add: read_number_def number_string_def d del: read_digits.simps)
  qed
qed

lemma path_string_Nil: "path_string [] = []"
  by (simp add: path_string_def)

lemma path_string_Cons: "path_string (c # cmds) = cmd_string c @ path_string cmds"
  by (simp add: path_string_def)

lemma path_string_head: "path_string cmds = [] \<or> \<not> is_digit (hd (path_string cmds))"
proof (cases cmds)
  case Nil
  then show ?thesis by (simp add: path_string_Nil)
next
  case (Cons c cs)
  then show ?thesis by (cases c) (simp_all add: path_string_Cons is_digit_def)
qed

lemma parse_path_string: "parse_path (path_string cmds) = Some cmds"
proof (induction cmds)
  case Nil
  show ?case by (simp add: path_string_Nil)
next
  case (Cons c cmds)
  note h = path_string_head[of cmds]
  show ?case
  proof (cases c)
    case (MoveTo x y)
    have 1: "read_number (number_string x @ (CHR '','' # number_string y @ path_string cmds))
        = Some (x, CHR '','' # number_string y @ path_string cmds)"
      by (rule read_number_number_string) (simp add: is_digit_def)
    have 2: "read_number (number_string y @ path_string cmds) = Some (y, path_string cmds)"
      by (rule read_number_number_string[OF h])
    show ?thesis using Cons by (simp add: MoveTo path_string_Cons 1 2)
  next
    case (HLineTo x)
    have "read_number (number_string x @ path_string cmds) = Some (x, path_string cmds)"
      by (rule read_number_number_string[OF h])
    then show ?thesis using Cons by (simp add: HLineTo path_string_Cons)
  next
    case (VLineTo y)
    have "read_number (number_string y @ path_string cmds) = Some (y, path_string cmds)"
      by (rule read_number_number_string[OF h])
    then show ?thesis using Cons by (simp add: VLineTo path_string_Cons)
  next
    case ClosePath
    then show ?thesis using Cons by (simp add: path_string_Cons)
  qed
qed

lemma path_vertices_string: "path_vertices (path_string cmds) = closed_path_vertices cmds"
  by (simp add: path_vertices_def parse_path_string)

lemma getPathDescriptionForMonth_string:
  "getPathDescriptionForMonth cs month =
     path_string
       [MoveTo ((getWeekNumber month + 1) * cs) (getDayNumber month * cs),
        HLineTo (getWeekNumber month * cs),
        VLineTo (7 * cs),
        HLineTo (getWeekNumber (nextMonth month) * cs),
        VLineTo ((getDayNumber (nextMonth month) + 1) * cs),
        HLineTo ((getWeekNumber (nextMonth month) + 1) * cs),
        VLineTo 0,
        HLineTo ((getWeekNumber month + 1) * cs),
        ClosePath]"
  by (simp add: getPathDescriptionForMonth_def path_string_def
      thisMonthWeekOfYear_def thisMonthDayOfWeek_def nextMonthWeekOfYear_def
      nextMonthDayOfWeek_def getWeekNumber_def getDayNumber_def)

lemma getPathDescriptionForMonth_path_vertices:
  "path_vertices (getPathDescriptionForMonth cs month) =
     Some [((getWeekNumber month + 1) * cs, getDayNumber month * cs),
           (getWeekNumber month * cs, getDayNumber month * cs),
           (getWeekNumber month * cs, 7 * cs),
           (getWeekNumber (nextMonth month) * cs, 7 * cs),
           (getWeekNumber (nextMonth month) * cs, (getDayNumber (nextMonth month) + 1) * cs),
           ((getWeekNumber (nextMonth month) + 1) * cs, (getDayNumber (nextMonth month) + 1) * cs),
           ((getWeekNumber (nextMonth month) + 1) * cs, 0),
           ((getWeekNumber month + 1) * cs, 0)]"
  unfolding getPathDescriptionForMonth_string path_vertices_string
  by (simp add: closed_path_vertices_def)

section \<open>Outlines\<close>

lemma edges_8:
  "edges [v1, v2, v3, v4, v5, v6, v7, v8] =
     [(v1, v2), (v2, v3), (v3, v4), (v4, v5), (v5, v6), (v6, v7), (v7, v8), (v8, v1)]"
  by (simp add: edges_def)

lemma edges_7:
  "edges [v1, v2, v3, v4, v5, v6, v7] =
     [(v1, v2), (v2, v3), (v3, v4), (v4, v5), (v5, v6), (v6, v7), (v7, v1)]"
  by (simp add: edges_def)

lemma edges_6:
  "edges [v1, v2, v3, v4, v5, v6] =
     [(v1, v2), (v2, v3), (v3, v4), (v4, v5), (v5, v6), (v6, v1)]"
  by (simp add: edges_def)

lemma seg_meet_iff:
  "seg_meet ((x1, y1), (x2, y2)) ((x3, y3), (x4, y4)) \<longleftrightarrow>
     max (min x1 x2) (min x3 x4) \<le> min (max x1 x2) (max x3 x4)
     \<and> max (min y1 y2) (min y3 y4) \<le> min (max y1 y2) (max y3 y4)"
  by (simp add: seg_meet_def overlap_lo_def overlap_hi_def)

lemma seg_touch_iff:
  "seg_touch ((x1, y1), (x2, y2)) ((x3, y3), (x4, y4)) \<longleftrightarrow>
     max (min x1 x2) (min x3 x4) = min (max x1 x2) (max x3 x4)
     \<and> max (min y1 y2) (min y3 y4) = min (max y1 y2) (max y3 y4)"
  by (simp add: seg_touch_def overlap_lo_def overlap_hi_def)

lemma outline_corners:
  fixes a b c d p q B :: int
  assumes "a < b" "b < c" "c < d" "0 \<le> p" "p < B" "0 < q" "q \<le> B"
  shows "corners [(b, p), (a, p), (a, B), (c, B), (c, q), (d, q), (d, 0), (b, 0)] =
     (if p = 0
      then (if q = B then [(b, 0), (a, 0), (a, B), (c, B), (d, B), (d, 0)]
            else [(b, 0), (a, 0), (a, B), (c, B), (c, q), (d, q), (d, 0)])
      else (if q = B then [(b, p), (a, p), (a, B), (c, B), (d, B), (d, 0), (b, 0)]
            else [(b, p), (a, p), (a, B), (c, B), (c, q), (d, q), (d, 0), (b, 0)]))"
  using assms by (auto simp: corners_def)

lemma outline_simple:
  fixes a b c d p q B :: int
  assumes "a < b" "b < c" "c < d" "0 \<le> p" "p < B" "0 < q" "q \<le> B"
  shows "simple_loop (corners [(b, p), (a, p), (a, B), (c, B), (c, q), (d, q), (d, 0), (b, 0)])"
proof -
  have 1: "simple_loop [(b, 0), (a, 0), (a, B), (c, B), (d, B), (d, 0)]" if "0 < B"
    using assms(1-3) that by (simp add: simple_loop_def edges_6 seg_meet_iff seg_touch_iff)
  have 2: "simple_loop [(b, 0), (a, 0), (a, B), (c, B), (c, q), (d, q), (d, 0)]" if "q < B"
    using assms(1-3,6) that by (simp add: simple_loop_def edges_7 seg_meet_iff seg_touch_iff)
  have 3: "simple_loop [(b, p), (a, p), (a, B), (c, B), (d, B), (d, 0), (b, 0)]" if "0 < p"
    using assms(1-3,5) that by (simp add: simple_loop_def edges_7 seg_meet_iff seg_touch_iff)
  have 4: "simple_loop [(b, p), (a, p), (a, B), (c, B), (c, q), (d, q), (d, 0), (b, 0)]"
    if "0 < p" "q < B"
    using assms(1-3,5,6) that by (simp add: simple_loop_def edges_8 seg_meet_iff seg_touch_iff)
  show ?thesis
    unfolding outline_corners[OF assms]
    using 1 2 3 4 assms by auto
qed

lemma outline_edges:
  fixes a b c d p q B :: int
  assumes "a < b" "b < c" "c < d" "0 \<le> p" "p < B" "0 < q" "q \<le> B"
  defines "vs \<equiv> [(b, p), (a, p), (a, B), (c, B), (c, q), (d, q), (d, 0), (b, 0)]"
  shows "horizontal (edges vs ! 0)" "vertical (edges vs ! 1)" "horizontal (edges vs ! 2)"
    "if q = B then fst (edges vs ! 3) = snd (edges vs ! 3) else vertical (edges vs ! 3)"
    "horizontal (edges vs ! 4)" "vertical (edges vs ! 5)" "horizontal (edges vs ! 6)"
    "if p = 0 then fst (edges vs ! 7) = snd (edges vs ! 7) else vertical (edges vs ! 7)"
    "alternating (edges vs) = (p \<noteq> 0 \<and> q \<noteq> B)"
  using assms(1-7) unfolding vs_def edges_8
  by (auto simp: horizontal_def vertical_def)

lemma scaled_coordinates:
  fixes cs tw nw td nd :: int
  assumes "0 < cs" "tw + 2 \<le> nw" "0 \<le> td" "td \<le> 6" "0 \<le> nd" "nd \<le> 6"
  shows "tw * cs < (tw + 1) * cs" "(tw + 1) * cs < nw * cs" "nw * cs < (nw + 1) * cs"
    "0 \<le> td * cs" "td * cs < 7 * cs" "0 < (nd + 1) * cs" "(nd + 1) * cs \<le> 7 * cs"
    "td * cs = 0 \<longleftrightarrow> td = 0" "(nd + 1) * cs = 7 * cs \<longleftrightarrow> nd = 6"
  using assms by (simp_all add: mult_less_cancel_right mult_le_cancel_right)

section \<open>The day cells of the drawing\<close>

text \<open>The data holds, for each date, the value and the name of the first row of that date.\<close>

lemma transformCsvData_first:
  "transformCsvData csv k =
     map_option (\<lambda>r. \<lparr>Value = row_Value r, Name = row_Name r\<rparr>)
       (find (\<lambda>r. row_Date r = k) csv)"
  by (induction csv) (auto simp: transformCsvData_def getDataObjectKey_def)

lemma dayRects_render:
  "dayRects (render data) =
     concat (map (\<lambda>year.
       map (\<lambda>dt.
         if isRectDataInCsvData data (timeFormat_Ymd dt)
         then \<lparr>rect_class = getRectClass data (timeFormat_Ymd dt), rect_width = 17,
               rect_height = 17, rect_x = getX 17 dt, rect_y = getY 17 dt,
               rect_datum = timeFormat_Ymd dt,
               rect_title = Some (getRectTitle data (timeFormat_Ymd dt))\<rparr>
         else \<lparr>rect_class = ''day'', rect_width = 17, rect_height = 17,
               rect_x = getX 17 dt, rect_y = getY 17 dt, rect_datum = timeFormat_Ymd dt,
               rect_title = Some (timeFormat_Ymd dt)\<rparr>)
         (getAllDaysInYear year))
       (d3_range 2016 2100))"
  by (simp add: dayRects_def render_def generateYearGroups_def attachTextToYearGroups_def
      generateDayRects_def attachTitlesToDayRects_def appendMonthPathsToYearGroups_def
      updateClassAndTitleForDayRects_def comp_def if_distrib cong: if_cong)

lemma dayRects_update:
  "dayRects (updateClassAndTitleForDayRects yearGroups data) =
     map (\<lambda>r. if isRectDataInCsvData data (rect_datum r)
               then r\<lparr>rect_class := getRectClass data (rect_datum r),
                      rect_title := map_option (\<lambda>_. getRectTitle data (rect_datum r))
                                      (rect_title r)\<rparr>
               else r)
         (dayRects yearGroups)"
  by (simp add: dayRects_def updateClassAndTitleForDayRects_def map_concat comp_def)

lemma in_concat_map: "x \<in> set (f y) \<Longrightarrow> y \<in> set ys \<Longrightarrow> x \<in> set (concat (map f ys))"
  by auto

lemma in_concat_mapD:
  "x \<in> set (concat (map (\<lambda>y. map g (h y)) ys)) \<Longrightarrow> \<exists>y \<in> set ys. \<exists>z \<in> set (h y). x = g z"
  by auto

lemma update_keeps_unmatched:
  assumes "r \<in> set (dayRects yearGroups)" "data (rect_datum r) = None"
  shows "r \<in> set (dayRects (updateClassAndTitleForDayRects yearGroups data))"
proof -
  let ?f = "\<lambda>r. if isRectDataInCsvData data (rect_datum r)
               then r\<lparr>rect_class := getRectClass data (rect_datum r),
                      rect_title := map_option (\<lambda>_. getRectTitle data (rect_datum r))
                                      (rect_title r)\<rparr>
               else r"
  have e: "?f r = r" using assms(2) by (simp add: isRectDataInCsvData_def)
  from assms(1) have "?f r \<in> ?f ` set (dayRects yearGroups)" by (rule imageI)
  then have "r \<in> ?f ` set (dayRects yearGroups)" unfolding e .
  then show ?thesis unfolding dayRects_update set_map .
qed

lemma update_unmatched_from:
  assumes "r \<in> set (dayRects (updateClassAndTitleForDayRects yearGroups data))"
    "data (rect_datum r) = None"
  shows "r \<in> set (dayRects yearGroups)"
proof -
  let ?f = "\<lambda>r. if isRectDataInCsvData data (rect_datum r)
               then r\<lparr>rect_class := getRectClass data (rect_datum r),
                      rect_title := map_option (\<lambda>_. getRectTitle data (rect_datum r))
                                      (rect_title r)\<rparr>
               else r"
  from assms(1) have "r \<in> ?f ` set (dayRects yearGroups)"
    unfolding dayRects_update set_map .
  then obtain r0 where r0: "r0 \<in> set (dayRects yearGroups)" "r = ?f r0"
    by (elim imageE)
  have d: "rect_datum (?f r0) = rect_datum r0" by simp
  then have "data (rect_datum r0) = None" using assms(2) unfolding r0(2) by simp
  then have "?f r0 = r0" by (simp add: isRectDataInCsvData_def)
  with r0 show ?thesis by simp
qed

lemma render_unmatched_cell:
  assumes "2016 \<le> year" "year \<le> 2099" "dt \<in> set (getAllDaysInYear year)"
    "data (timeFormat_Ymd dt) = None"
  shows "\<lparr>rect_class = ''day'', rect_width = 17, rect_height = 17, rect_x = getX 17 dt,
         rect_y = getY 17 dt, rect_datum = timeFormat_Ymd dt,
         rect_title = Some (timeFormat_Ymd dt)\<rparr> \<in> set (dayRects (render data))"
proof -
  define cell where "cell = (\<lambda>dt.
         if isRectDataInCsvData data (timeFormat_Ymd dt)
         then \<lparr>rect_class = getRectClass data (timeFormat_Ymd dt), rect_width = 17,
               rect_height = 17, rect_x = getX 17 dt, rect_y = getY 17 dt,
               rect_datum = timeFormat_Ymd dt,
               rect_title = Some (getRectTitle data (timeFormat_Ymd dt))\<rparr>
         else \<lparr>rect_class = ''day'', rect_width = 17, rect_height = 17,
               rect_x = getX 17 dt, rect_y = getY 17 dt, rect_datum = timeFormat_Ymd dt,
               rect_title = Some (timeFormat_Ymd dt)\<rparr>)"
  have r: "dayRects (render data) =
      concat (map (\<lambda>year. map cell (getAllDaysInYear year)) (d3_range 2016 2100))"
    unfolding dayRects_render cell_def ..
  have y: "year \<in> set (d3_range 2016 2100)"
    unfolding d3_range_def set_upto using assms(1,2) by simp
  have "cell dt \<in> set (map cell (getAllDaysInYear year))"
    using assms(3) by simp
  then have "cell dt \<in> set (dayRects (render data))"
    unfolding r using y by (rule in_concat_map)
  moreover have "cell dt = \<lparr>rect_class = ''day'', rect_width = 17, rect_height = 17,
         rect_x = getX 17 dt, rect_y = getY 17 dt, rect_datum = timeFormat_Ymd dt,
         rect_title = Some (timeFormat_Ymd dt)\<rparr>"
    using assms(4) by (simp add: cell_def isRectDataInCsvData_def)
  ultimately show ?thesis by simp
qed

lemma render_unmatched_attributes:
  assumes "r \<in> set (dayRects (render data))" "data (rect_datum r) = None"
  shows "rect_class r = ''day'' \<and> rect_title r = Some (rect_datum r)"
proof -
  define cell where "cell = (\<lambda>dt.
         if isRectDataInCsvData data (timeFormat_Ymd dt)
         then \<lparr>rect_class = getRectClass data (timeFormat_Ymd dt), rect_width = 17,
               rect_height = 17, rect_x = getX 17 dt, rect_y = getY 17 dt,
               rect_datum = timeFormat_Ymd dt,
               rect_title = Some (getRectTitle data (timeFormat_Ymd dt))\<rparr>
         else \<lparr>rect_class = ''day'', rect_width = 17, rect_height = 17,
               rect_x = getX 17 dt, rect_y = getY 17 dt, rect_datum = timeFormat_Ymd dt,
               rect_title = Some (timeFormat_Ymd dt)\<rparr>)"
  have r: "dayRects (render data) =
      concat (map (\<lambda>year. map cell (getAllDaysInYear year)) (d3_range 2016 2100))"
    unfolding dayRects_render cell_def ..
  from assms(1) obtain dt where c: "r = cell dt"
    unfolding r by (blast dest: in_concat_mapD)
  have d: "rect_datum (cell dt) = timeFormat_Ymd dt" by (simp add: cell_def)
  then have "data (timeFormat_Ymd dt) = None" using assms(2) unfolding c by simp
  then show ?thesis unfolding c by (simp add: cell_def isRectDataInCsvData_def)
qed

section \<open>The claims\<close>

subsection \<open>The month outline\<close>

text \<open>
  Claim C1. For every month, given as the date of its first day, in a year from -271820
  to 275759 that the date constructor takes as it is written (not one of 0 to 99), and
  for every cell size \<open>cs\<close>: the given date is day 1 of its month; \<open>lastDay\<close>, day
  \<open>DaysInMonth\<close> of the same month and year, is the last day of that month (it lies
  \<open>DaysInMonth - 1\<close> days after the first, in the same year and month, and the day after it
  is a first of the month); and \<^verbatim>\<open>getPathDescriptionForMonth\<close> returns the path
  description of the closed path that moves to \<open>((thisWeek + 1) * cs, thisDow * cs)\<close> and
  then visits \<open>(thisWeek * cs, thisDow * cs)\<close>, \<open>(thisWeek * cs, 7 * cs)\<close>,
  \<open>(nextWeek * cs, 7 * cs)\<close>, \<open>(nextWeek * cs, (nextDow + 1) * cs)\<close>,
  \<open>((nextWeek + 1) * cs, (nextDow + 1) * cs)\<close>, \<open>((nextWeek + 1) * cs, 0)\<close> and
  \<open>((thisWeek + 1) * cs, 0)\<close> before it closes: eight vertices, where \<open>thisWeek\<close> and
  \<open>thisDow\<close> are the week number and the day number of the first day of the month and
  \<open>nextWeek\<close> and \<open>nextDow\<close> those of its last day.
\<close>

theorem getPathDescriptionForMonth_vertices:
  assumes "getDate month = 1"
    and "(- 271820 \<le> getFullYear month \<and> getFullYear month < 0)
         \<or> (99 < getFullYear month \<and> getFullYear month \<le> 275759)"
  shows
  "(let lastDay = MakeDay (getFullYear month) (getMonth month)
                    (DaysInMonth (getFullYear month) (getMonth month));
        thisWeek = getWeekNumber month;
        thisDow = getDayNumber month;
        nextWeek = getWeekNumber lastDay;
        nextDow = getDayNumber lastDay
    in month = MakeDay (getFullYear month) (getMonth month) 1
       \<and> lastDay = month + DaysInMonth (getFullYear month) (getMonth month) - 1
       \<and> getFullYear lastDay = getFullYear month
       \<and> getMonth lastDay = getMonth month
       \<and> getDate (lastDay + 1) = 1
       \<and> getPathDescriptionForMonth cs month =
         path_string
           [MoveTo ((thisWeek + 1) * cs) (thisDow * cs),
            HLineTo (thisWeek * cs),
            VLineTo (7 * cs),
            HLineTo (nextWeek * cs),
            VLineTo ((nextDow + 1) * cs),
            HLineTo ((nextWeek + 1) * cs),
            VLineTo 0,
            HLineTo ((thisWeek + 1) * cs),
            ClosePath]
       \<and> path_vertices (getPathDescriptionForMonth cs month) =
           Some [((thisWeek + 1) * cs, thisDow * cs),
                 (thisWeek * cs, thisDow * cs),
                 (thisWeek * cs, 7 * cs),
                 (nextWeek * cs, 7 * cs),
                 (nextWeek * cs, (nextDow + 1) * cs),
                 ((nextWeek + 1) * cs, (nextDow + 1) * cs),
                 ((nextWeek + 1) * cs, 0),
                 ((thisWeek + 1) * cs, 0)])"
proof -
  have y: "getFullYear month < 0 \<or> 99 < getFullYear month" using assms(2) by auto
  note l = nextMonth_last_day[OF assms(1) y]
  have m: "0 \<le> getMonth month" "getMonth month \<le> 11"
    using MonthFromTime_range[of month] by (simp_all add: getMonth_def)
  have f: "month = MakeDay (getFullYear month) (getMonth month) 1"
    using first_of_month[OF assms(1)] by (simp add: MakeDay_month[OF m])
  have e: "MakeDay (getFullYear month) (getMonth month)
             (DaysInMonth (getFullYear month) (getMonth month)) = nextMonth month"
    using l by simp
  have a: "nextMonth month = month + DaysInMonth (getFullYear month) (getMonth month) - 1"
    and b: "getFullYear (nextMonth month) = getFullYear month"
    and c: "getMonth (nextMonth month) = getMonth month"
    and d: "getDate (nextMonth month + 1) = 1"
    using l by blast+
  show ?thesis
    unfolding Let_def e
    by (intro conjI f a b c d getPathDescriptionForMonth_string
        getPathDescriptionForMonth_path_vertices)
qed

theorem getPathDescriptionForMonth_vertices_february_2017:
  "getDate (new_Date 2017 1 1) = 1
   \<and> 99 < getFullYear (new_Date 2017 1 1) \<and> getFullYear (new_Date 2017 1 1) \<le> 275759
   \<and> MakeDay (getFullYear (new_Date 2017 1 1)) (getMonth (new_Date 2017 1 1))
        (DaysInMonth (getFullYear (new_Date 2017 1 1)) (getMonth (new_Date 2017 1 1)))
      = new_Date 2017 1 28
   \<and> getWeekNumber (new_Date 2017 1 1) = 4 \<and> getDayNumber (new_Date 2017 1 1) = 3
   \<and> getWeekNumber (new_Date 2017 1 28) = 8 \<and> getDayNumber (new_Date 2017 1 28) = 2
   \<and> getDate (new_Date 2017 1 28 + 1) = 1
   \<and> getPathDescriptionForMonth 17 (new_Date 2017 1 1) = ''M85,51H68V119H136V51H153V0H85Z''
   \<and> path_vertices (getPathDescriptionForMonth 17 (new_Date 2017 1 1)) =
       Some [(85, 51), (68, 51), (68, 119), (136, 119), (136, 51), (153, 51), (153, 0), (85, 0)]"
proof -
  have d: "getDate (new_Date 2017 1 1) = 1" by code_simp
  have y1: "99 < getFullYear (new_Date 2017 1 1)" by code_simp
  have y2: "getFullYear (new_Date 2017 1 1) \<le> 275759" by code_simp
  have l: "MakeDay (getFullYear (new_Date 2017 1 1)) (getMonth (new_Date 2017 1 1))
        (DaysInMonth (getFullYear (new_Date 2017 1 1)) (getMonth (new_Date 2017 1 1)))
      = new_Date 2017 1 28"
    by code_simp
  have w1: "getWeekNumber (new_Date 2017 1 1) = 4" by code_simp
  have w2: "getDayNumber (new_Date 2017 1 1) = 3" by code_simp
  have w3: "getWeekNumber (new_Date 2017 1 28) = 8" by code_simp
  have w4: "getDayNumber (new_Date 2017 1 28) = 2" by code_simp
  have s: "path_string [MoveTo 85 51, HLineTo 68, VLineTo 119, HLineTo 136, VLineTo 51,
      HLineTo 153, VLineTo 0, HLineTo 85, ClosePath] = ''M85,51H68V119H136V51H153V0H85Z''"
    by code_simp
  note t = getPathDescriptionForMonth_vertices[OF d disjI2[OF conjI[OF y1 y2]], of 17,
      unfolded Let_def l w1 w2 w3 w4]
  from t have n: "getDate (new_Date 2017 1 28 + 1) = 1" by blast
  from t have "getPathDescriptionForMonth 17 (new_Date 2017 1 1) =
      path_string [MoveTo ((4 + 1) * 17) (3 * 17), HLineTo (4 * 17), VLineTo (7 * 17),
        HLineTo (8 * 17), VLineTo ((2 + 1) * 17), HLineTo ((8 + 1) * 17), VLineTo 0,
        HLineTo ((4 + 1) * 17), ClosePath]"
    by blast
  with s have p: "getPathDescriptionForMonth 17 (new_Date 2017 1 1) =
      ''M85,51H68V119H136V51H153V0H85Z''"
    by simp
  from t have "path_vertices (getPathDescriptionForMonth 17 (new_Date 2017 1 1)) =
      Some [((4 + 1) * 17, 3 * 17), (4 * 17, 3 * 17), (4 * 17, 7 * 17), (8 * 17, 7 * 17),
        (8 * 17, (2 + 1) * 17), ((8 + 1) * 17, (2 + 1) * 17), ((8 + 1) * 17, 0),
        ((4 + 1) * 17, 0)]"
    by blast
  then have v: "path_vertices (getPathDescriptionForMonth 17 (new_Date 2017 1 1)) =
      Some [(85, 51), (68, 51), (68, 119), (136, 119), (136, 51), (153, 51), (153, 0), (85, 0)]"
    by simp
  from d y1 y2 l w1 w2 w3 w4 n p v show ?thesis by (intro conjI)
qed

text \<open>
  Claim C3, as amended. With cell size 17 and the month January 2016: 1 January 2016 has
  day number 5 and week number 0; the last day, 31 January 2016, has day number 0 and
  week number 5 (it is the fifth Sunday after 1 January); and the outline is
  \<open>M17,85H0V119H85V17H102V0H17Z\<close>, with the vertices (17,85), (0,85), (0,119),
  (85,119), (85,17), (102,17), (102,0), (17,0) in this order.
\<close>

theorem january_2016_outline:
  "getDayNumber (new_Date 2016 0 1) = 5
   \<and> getWeekNumber (new_Date 2016 0 1) = 0
   \<and> nextMonth (new_Date 2016 0 1) = new_Date 2016 0 31
   \<and> getDayNumber (new_Date 2016 0 31) = 0
   \<and> getWeekNumber (new_Date 2016 0 31) = 5
   \<and> getPathDescriptionForMonth 17 (new_Date 2016 0 1) = ''M17,85H0V119H85V17H102V0H17Z''
   \<and> path_vertices (getPathDescriptionForMonth 17 (new_Date 2016 0 1)) =
       Some [(17, 85), (0, 85), (0, 119), (85, 119), (85, 17), (102, 17), (102, 0), (17, 0)]"
  by code_simp

text \<open>
  Against claim C3 as it is written: the week number of 31 January 2016 is not 4, and the
  outline of January 2016 is not the path through (68,119), (68,17), (85,17), (85,0).
\<close>

theorem january_2016_week_not_4:
  "getWeekNumber (new_Date 2016 0 31) \<noteq> 4
   \<and> path_vertices (getPathDescriptionForMonth 17 (new_Date 2016 0 1)) \<noteq>
       Some [(17, 85), (0, 85), (0, 119), (68, 119), (68, 17), (85, 17), (85, 0), (17, 0)]"
  by code_simp

text \<open>
  Claim C6, as amended. For every month, given as the date of its first day, and every
  positive cell size, the path is closed and has 8 vertices; its edges 1, 3, 5 and 7 are
  purely horizontal and its edges 2 and 6 purely vertical; edge 4 is purely vertical
  unless the month ends on a Saturday, and the closing edge 8 is purely vertical unless
  the month begins on a Sunday, and in these two cases the ends of the edge coincide; so
  horizontal and vertical edges alternate all the way round exactly when the month
  neither begins on a Sunday nor ends on a Saturday; and the loop through the corners
  (the vertices without the repeated ones) does not intersect itself.
\<close>

theorem month_outline_loop:
  assumes "getDate month = 1" and "0 < cs"
  shows "\<exists>vs. path_vertices (getPathDescriptionForMonth cs month) = Some vs
     \<and> length vs = 8
     \<and> horizontal (edges vs ! 0)
     \<and> vertical (edges vs ! 1)
     \<and> horizontal (edges vs ! 2)
     \<and> (if getDayNumber (nextMonth month) = 6 then fst (edges vs ! 3) = snd (edges vs ! 3)
         else vertical (edges vs ! 3))
     \<and> horizontal (edges vs ! 4)
     \<and> vertical (edges vs ! 5)
     \<and> horizontal (edges vs ! 6)
     \<and> (if getDayNumber month = 0 then fst (edges vs ! 7) = snd (edges vs ! 7)
         else vertical (edges vs ! 7))
     \<and> alternating (edges vs) = (getDayNumber month \<noteq> 0 \<and> getDayNumber (nextMonth month) \<noteq> 6)
     \<and> simple_loop (corners vs)"
proof -
  define tw where "tw = getWeekNumber month"
  define nw where "nw = getWeekNumber (nextMonth month)"
  define td where "td = getDayNumber month"
  define nd where "nd = getDayNumber (nextMonth month)"
  have r: "tw + 2 \<le> nw" "0 \<le> td" "td \<le> 6" "0 \<le> nd" "nd \<le> 6"
    using week_span_any[OF assms(1)] getDayNumber_bounds[of month]
      getDayNumber_bounds[of "nextMonth month"]
    by (simp_all add: tw_def nw_def td_def nd_def)
  note s = scaled_coordinates[OF assms(2) r]
  let ?vs = "[((tw + 1) * cs, td * cs), (tw * cs, td * cs), (tw * cs, 7 * cs), (nw * cs, 7 * cs),
              (nw * cs, (nd + 1) * cs), ((nw + 1) * cs, (nd + 1) * cs), ((nw + 1) * cs, 0),
              ((tw + 1) * cs, 0)]"
  have v: "path_vertices (getPathDescriptionForMonth cs month) = Some ?vs"
    unfolding getPathDescriptionForMonth_path_vertices tw_def nw_def td_def nd_def by simp
  note e = outline_edges[OF s(1-7)]
  have "simple_loop (corners ?vs)" by (rule outline_simple[OF s(1-7)])
  with v e show ?thesis
    unfolding s(8,9) td_def[symmetric] nd_def[symmetric] by (intro exI[of _ ?vs]) simp
qed

theorem month_outline_loop_may_2016:
  "getDate (new_Date 2016 4 1) = 1 \<and> (0::int) < 17
   \<and> (\<exists>vs. path_vertices (getPathDescriptionForMonth 17 (new_Date 2016 4 1)) = Some vs
     \<and> length vs = 8
     \<and> horizontal (edges vs ! 0)
     \<and> vertical (edges vs ! 1)
     \<and> horizontal (edges vs ! 2)
     \<and> (if getDayNumber (nextMonth (new_Date 2016 4 1)) = 6
         then fst (edges vs ! 3) = snd (edges vs ! 3)
         else vertical (edges vs ! 3))
     \<and> horizontal (edges vs ! 4)
     \<and> vertical (edges vs ! 5)
     \<and> horizontal (edges vs ! 6)
     \<and> (if getDayNumber (new_Date 2016 4 1) = 0 then fst (edges vs ! 7) = snd (edges vs ! 7)
         else vertical (edges vs ! 7))
     \<and> alternating (edges vs) =
         (getDayNumber (new_Date 2016 4 1) \<noteq> 0
          \<and> getDayNumber (nextMonth (new_Date 2016 4 1)) \<noteq> 6)
     \<and> simple_loop (corners vs))"
proof -
  have d: "getDate (new_Date 2016 4 1) = 1" by code_simp
  have c: "(0::int) < 17" by simp
  from month_outline_loop[OF d c] d c show ?thesis by (intro conjI)
qed

text \<open>
  Against claim C6 as it is written: May 2016 begins on a Sunday, so the last vertex of
  its outline is the first one again, the closing edge is not a vertical edge, and the
  edges do not alternate all the way round.
\<close>

theorem may_2016_closing_edge:
  "path_vertices (getPathDescriptionForMonth 17 (new_Date 2016 4 1)) =
     Some [(323, 0), (306, 0), (306, 119), (374, 119), (374, 51), (391, 51), (391, 0), (323, 0)]
   \<and> \<not> vertical
        (edges [(323, 0), (306, 0), (306, 119), (374, 119), (374, 51), (391, 51), (391, 0),
                (323, 0)] ! 7)
   \<and> \<not> alternating
        (edges [(323, 0), (306, 0), (306, 119), (374, 119), (374, 51), (391, 51), (391, 0),
                (323, 0)])
   \<and> \<not> simple_loop
        [(323, 0), (306, 0), (306, 119), (374, 119), (374, 51), (391, 51), (391, 0), (323, 0)]"
  by code_simp

subsection \<open>Grid coordinates\<close>

text \<open>
  Claim C2. For every date, the day number is the weekday of the date, from 0 to 6, where
  the weekday of 1 January 1970 is 4 (a Thursday, so that 0 is Sunday and 6 Saturday) and
  the weekday of the next day is the next weekday; the week number is the number of
  Sunday-to-Saturday week boundaries crossed since 1 January of the date's year (the year
  whose 1 January is at or before the date and whose next 1 January is after it), and it
  is 0 on that 1 January whatever its weekday; and the pixel position is the week number
  times the cell size and the day number times the cell size. The functions are total.
\<close>

theorem DateGridMapper_coordinates:
  "getDayNumber dt = getDay dt
   \<and> 0 \<le> getDay dt \<and> getDay dt \<le> 6
   \<and> getDay (MakeDay 1970 0 1) = 4
   \<and> getDay (dt + 1) = (getDay dt + 1) mod 7
   \<and> MakeDay (getFullYear dt) 0 1 \<le> dt
   \<and> dt < MakeDay (getFullYear dt + 1) 0 1
   \<and> getWeekNumber dt = int (weekBoundariesCrossed (MakeDay (getFullYear dt) 0 1) dt)
   \<and> getWeekNumber (MakeDay (getFullYear dt) 0 1) = 0
   \<and> getX cs dt = getWeekNumber dt * cs
   \<and> getY cs dt = getDayNumber dt * cs"
proof -
  have j: "MakeDay (getFullYear dt) 0 1 = timeYear dt"
    by (simp add: timeYear_def)
  have a: "getDay (MakeDay 1970 0 1) = 4"
    by (simp add: MakeDay_0_1 DayFromYear_def getDay_def WeekDay_def)
  have s: "getDay (dt + 1) = (getDay dt + 1) mod 7"
    by (simp add: getDay_def WeekDay_def mod_simps algebra_simps)
  have y: "dt < MakeDay (getFullYear dt + 1) 0 1"
    using YearFromTime_bounds[of dt] by (simp add: MakeDay_0_1 getFullYear_def)
  have w: "getWeekNumber dt = int (weekBoundariesCrossed (timeYear dt) dt)"
    using sunday_count[OF timeYear_le(1), of dt]
    by (simp add: getWeekNumber_def week_count)
  have z: "getWeekNumber (timeYear dt) = 0"
    unfolding timeYear_def
    by (simp add: getWeekNumber_def week_count timeYear_def getFullYear_MakeDay_0_1)
  show ?thesis
    using a s y w z timeYear_le(1)[of dt] unfolding j
    by (simp add: getDayNumber_def getX_def getY_def getDay_def WeekDay_def)
qed

text \<open>
  Claim C4 says that the week number of every date lies between 0 and 52 and its day
  number between 0 and 6. The description of \<^verbatim>\<open>getWeekNumber\<close> in the script names 51
  as the last week, and \<^verbatim>\<open>getOffsetX\<close> centres a grid of 53 columns. On the code, 2028 is
  one of the years that are drawn and 31 December 2028 is the last of its days; it is a
  Sunday in a leap year that began on a Saturday and its week number is 53, not 52 or
  less, so that with the cell size 17 its cell is placed at \<open>x = 53 * 17\<close>, in a 54th
  column.
\<close>

theorem december_31_2028_week_53:
  "2028 \<in> set (d3_range 2016 2100)
   \<and> last (getAllDaysInYear 2028) = new_Date 2028 11 31
   \<and> getFullYear (new_Date 2028 11 31) = 2028
   \<and> getMonth (new_Date 2028 11 31) = 11
   \<and> getDate (new_Date 2028 11 31) = 31
   \<and> getDayNumber (new_Date 2028 11 31) = 0
   \<and> getWeekNumber (new_Date 2028 11 31) = 53
   \<and> \<not> getWeekNumber (new_Date 2028 11 31) \<le> 52
   \<and> getX 17 (new_Date 2028 11 31) = 53 * 17"
  by code_simp

text \<open>
  Claim C5. For every year from -271820 to 275759 that the date constructor takes as it
  is written (below -1 or above 99; the years 2016 to 2099 that are drawn are among
  them), \<^verbatim>\<open>getAllDaysInYear\<close> returns 365 dates, 366 when the year is a leap year, in
  strictly ascending order, the first being 1 January and the last 31 December of the
  year; all the dates are of that year and within the range that a date can hold.
\<close>

theorem getAllDaysInYear_dates:
  assumes "(- 271820 \<le> year \<and> year < - 1) \<or> (99 < year \<and> year \<le> 275759)"
  shows "length (getAllDaysInYear year) = (if InLeapYear year then 366 else 365)
    \<and> sorted_wrt (<) (getAllDaysInYear year)
    \<and> hd (getAllDaysInYear year) = MakeDay year 0 1
    \<and> getFullYear (hd (getAllDaysInYear year)) = year
    \<and> getMonth (hd (getAllDaysInYear year)) = 0
    \<and> getDate (hd (getAllDaysInYear year)) = 1
    \<and> last (getAllDaysInYear year) = MakeDay year 11 31
    \<and> getFullYear (last (getAllDaysInYear year)) = year
    \<and> getMonth (last (getAllDaysInYear year)) = 11
    \<and> getDate (last (getAllDaysInYear year)) = 31
    \<and> (\<forall>d \<in> set (getAllDaysInYear year).
          getFullYear d = year \<and> - 100000000 \<le> d \<and> d \<le> 100000000)"
proof -
  have q: "year < -1 \<or> 99 < year" using assms by auto
  let ?a = "DayFromYear year" and ?b = "DayFromYear year + DaysInYear year - 1"
  have le: "?a \<le> ?b" using DaysInYear_pos(1)[of year] by simp
  have l: "length [?a..?b] = (if InLeapYear year then 366 else 365)"
    by (simp add: DaysInYear_def)
  have h: "hd [?a..?b] = ?a" by (simp add: upto_rec1[OF le])
  have t: "last [?a..?b] = ?b" by (simp add: upto_rec2[OF le])
  have r1: "- 100000000 \<le> ?a"
    using assms by (intro DayFromYear_range(1)) auto
  have "DayFromYear (year + 1) \<le> 100000000"
    using assms by (intro DayFromYear_range(2)) auto
  then have r2: "?b \<le> 100000000" by (simp add: DayFromYear_succ)
  have m: "\<forall>d \<in> set [?a..?b]. getFullYear d = year \<and> - 100000000 \<le> d \<and> d \<le> 100000000"
  proof
    fix d assume d: "d \<in> set [?a..?b]"
    then have "0 \<le> d - ?a" "d - ?a < DaysInYear year" by simp_all
    from YearFromTime_offset[OF this] have "getFullYear d = year"
      by (simp add: getFullYear_def)
    moreover have "- 100000000 \<le> d" "d \<le> 100000000" using d r1 r2 by simp_all
    ultimately show "getFullYear d = year \<and> - 100000000 \<le> d \<and> d \<le> 100000000" by simp
  qed
  show ?thesis
    unfolding getAllDaysInYear_eq[OF q] l h t
    using fields_first_day[of year] fields_last_day[of year] m
    by (simp add: MakeDay_0_1 MakeDay_11_31)
qed

theorem getAllDaysInYear_dates_2016:
  "(99::int) < 2016 \<and> (2016::int) \<le> 275759
   \<and> 2016 \<in> set (d3_range 2016 2100)
   \<and> length (getAllDaysInYear 2016) = 366
   \<and> hd (getAllDaysInYear 2016) = new_Date 2016 0 1
   \<and> last (getAllDaysInYear 2016) = new_Date 2016 11 31
   \<and> (\<exists>d. d \<in> set (getAllDaysInYear 2016) \<and> getFullYear d = 2016)"
proof -
  have h: "(- 271820 \<le> (2016::int) \<and> (2016::int) < - 1)
      \<or> (99 < (2016::int) \<and> (2016::int) \<le> 275759)"
    by simp
  note t = getAllDaysInYear_dates[OF h]
  have i: "InLeapYear 2016" by (simp add: InLeapYear_def)
  have n: "new_Date 2016 0 1 = MakeDay 2016 0 1" "new_Date 2016 11 31 = MakeDay 2016 11 31"
    by (simp_all add: new_Date_def)
  have r: "2016 \<in> set (d3_range 2016 2100)" by code_simp
  from t i have 1: "length (getAllDaysInYear 2016) = 366" by simp
  from t n have 2: "hd (getAllDaysInYear 2016) = new_Date 2016 0 1" by simp
  from t n have 3: "last (getAllDaysInYear 2016) = new_Date 2016 11 31" by simp
  from 1 have "getAllDaysInYear 2016 \<noteq> []" by auto
  then have "hd (getAllDaysInYear 2016) \<in> set (getAllDaysInYear 2016)" by simp
  moreover from t have "\<forall>d \<in> set (getAllDaysInYear 2016). getFullYear d = 2016" by blast
  ultimately have 4: "\<exists>d. d \<in> set (getAllDaysInYear 2016) \<and> getFullYear d = 2016" by blast
  have 5: "(99::int) < 2016" "(2016::int) \<le> 275759" by simp_all
  from 5 r 1 2 3 4 show ?thesis by (intro conjI)
qed

subsection \<open>Loading and rendering\<close>

text \<open>
  Claim C8. A day cell whose date string is not a key of the data keeps what it was
  created with: in the finished drawing its class is \<open>day\<close> and its title the date string
  itself, and for every date of the years 2016 to 2099 whose date string is not a key the
  drawing holds the cell with exactly the attributes of its creation. The update pass
  restyles only the cells whose date string is a key: a cell with no key is in the
  drawing after the pass if and only if it was there before it, unchanged.
\<close>

theorem unmatched_day_rects_unchanged:
  "(\<forall>r \<in> set (dayRects (render data)).
      data (rect_datum r) = None \<longrightarrow>
        rect_class r = ''day'' \<and> rect_title r = Some (rect_datum r))
   \<and> (2016 \<le> year \<and> year \<le> 2099 \<and> dt \<in> set (getAllDaysInYear year)
        \<and> data (timeFormat_Ymd dt) = None \<longrightarrow>
        \<lparr>rect_class = ''day'', rect_width = 17, rect_height = 17, rect_x = getX 17 dt,
         rect_y = getY 17 dt, rect_datum = timeFormat_Ymd dt,
         rect_title = Some (timeFormat_Ymd dt)\<rparr> \<in> set (dayRects (render data)))
   \<and> (\<forall>r \<in> set (dayRects yearGroups).
        data (rect_datum r) = None \<longrightarrow>
          r \<in> set (dayRects (updateClassAndTitleForDayRects yearGroups data)))
   \<and> (\<forall>r \<in> set (dayRects (updateClassAndTitleForDayRects yearGroups data)).
        data (rect_datum r) = None \<longrightarrow> r \<in> set (dayRects yearGroups))"
proof (intro conjI ballI impI)
  fix r assume "r \<in> set (dayRects (render data))" "data (rect_datum r) = None"
  then show "rect_class r = ''day''" "rect_title r = Some (rect_datum r)"
    using render_unmatched_attributes by simp_all
next
  assume "2016 \<le> year \<and> year \<le> 2099 \<and> dt \<in> set (getAllDaysInYear year)
        \<and> data (timeFormat_Ymd dt) = None"
  then have a: "2016 \<le> year" "year \<le> 2099" "dt \<in> set (getAllDaysInYear year)"
    "data (timeFormat_Ymd dt) = None" by simp_all
  show "\<lparr>rect_class = ''day'', rect_width = 17, rect_height = 17, rect_x = getX 17 dt,
         rect_y = getY 17 dt, rect_datum = timeFormat_Ymd dt,
         rect_title = Some (timeFormat_Ymd dt)\<rparr> \<in> set (dayRects (render data))"
    by (rule render_unmatched_cell[of year dt data, OF a])
next
  fix r assume "r \<in> set (dayRects yearGroups)" "data (rect_datum r) = None"
  then show "r \<in> set (dayRects (updateClassAndTitleForDayRects yearGroups data))"
    by (rule update_keeps_unmatched)
next
  fix r assume "r \<in> set (dayRects (updateClassAndTitleForDayRects yearGroups data))"
    "data (rect_datum r) = None"
  then show "r \<in> set (dayRects yearGroups)"
    by (rule update_unmatched_from)
qed

theorem unmatched_day_rects_unchanged_2016_01_01:
  "(2016::int) \<le> 2016 \<and> (2016::int) \<le> 2099
   \<and> new_Date 2016 0 1 \<in> set (getAllDaysInYear 2016)
   \<and> transformCsvData [\<lparr>row_Date = ''2016-01-02'', row_Value = 42, row_Name = ''launch''\<rparr>]
        (timeFormat_Ymd (new_Date 2016 0 1)) = None
   \<and> \<lparr>rect_class = ''day'', rect_width = 17, rect_height = 17, rect_x = 0, rect_y = 85,
       rect_datum = ''2016-01-01'', rect_title = Some ''2016-01-01''\<rparr>
       \<in> set (dayRects (render (transformCsvData
              [\<lparr>row_Date = ''2016-01-02'', row_Value = 42, row_Name = ''launch''\<rparr>])))"
proof -
  let ?data = "transformCsvData
      [\<lparr>row_Date = ''2016-01-02'', row_Value = 42, row_Name = ''launch''\<rparr>]"
  have m: "new_Date 2016 0 1 \<in> set (getAllDaysInYear 2016)" by code_simp
  have f: "timeFormat_Ymd (new_Date 2016 0 1) = ''2016-01-01''" by code_simp
  have n: "?data (timeFormat_Ymd (new_Date 2016 0 1)) = None"
    unfolding f by (simp add: transformCsvData_def getDataObjectKey_def)
  have x: "getX 17 (new_Date 2016 0 1) = 0" "getY 17 (new_Date 2016 0 1) = 85"
    by code_simp+
  from unmatched_day_rects_unchanged[of ?data 2016 "new_Date 2016 0 1"] m n
  have "\<lparr>rect_class = ''day'', rect_width = 17, rect_height = 17,
         rect_x = getX 17 (new_Date 2016 0 1), rect_y = getY 17 (new_Date 2016 0 1),
         rect_datum = timeFormat_Ymd (new_Date 2016 0 1),
         rect_title = Some (timeFormat_Ymd (new_Date 2016 0 1))\<rparr>
       \<in> set (dayRects (render ?data))"
    by simp
  then show ?thesis unfolding x f using m n unfolding f by simp
qed

text \<open>
  Claim C9. When the load callback receives an error, it throws that error, whatever the
  rows, and makes no drawing.
\<close>

theorem csv_callback_error:
  "csv_callback (Some e) csv = Inl e \<and> csv_callback (Some e) csv \<noteq> Inr drawing"
  by (simp add: csv_callback_def)

text \<open>
  Claim C10. Whatever the data, the drawing has one year group for each of the years
  2016 to 2099, in this order, 84 in all, and none for any other year; and this drawing
  is what the load callback makes of the rows when it receives no error.
\<close>

theorem render_year_groups:
  "map svg_datum (render data) = [2016..2099]
   \<and> length (render data) = 84
   \<and> csv_callback None csv = Inr (render (transformCsvData csv))"
  by (simp add: csv_callback_def render_def generateYearGroups_def attachTextToYearGroups_def
      generateDayRects_def attachTitlesToDayRects_def appendMonthPathsToYearGroups_def
      updateClassAndTitleForDayRects_def d3_range_def comp_def)

end
